theory Spec2Isabelle
  imports Complex_Main "HOL-Library.Word" "HOL-Library.Signed_Division"
begin

section \<open>VMware-Inventory: the inventory aggregation of \<open>main.go\<close>\<close>

text \<open>
  A shallow embedding of the body of \<open>main\<close> in \<open>src/main.go\<close>, from the point where the
  host list has been retrieved (line 80) to the last CSV record (line 253). The three
  passes over the host list (group names, anonymised labels, vSAN disk facts) and the row
  writer are modelled as the code has them: Go maps as partial maps, the remote calls as
  functions that take and return the state of the management server, every \<open>err != nil\<close>
  as \<open>Inl\<close>, and the one operation that can panic (integer division) as a result of type
  \<open>panic + _\<close>.

  The sized integers of the code (\<open>int16\<close>, \<open>int32\<close>, \<open>int64\<close>) are words. The counters
  of type \<open>int\<close> (\<open>idx\<close>, \<open>totalDisks\<close>, \<open>cacheDisks\<close>, the index of a row) count elements
  of slices held in memory and cannot reach \<open>2 ^ 63\<close>; they are unbounded integers here.
  What the code only prints (the warnings of \<open>log.Printf\<close>, the dumps under \<open>-debug\<close>) is
  left out, since no value that reaches the rows depends on it.
\<close>

subsection \<open>Data of the SDK that the code reads\<close>

text \<open>
  Only the fields that \<open>main.go\<close> touches are kept. A Go pointer that the code tests
  against \<open>nil\<close> is an \<open>option\<close>. Structs held by value (\<open>Summary\<close>, \<open>Summary.Config\<close>,
  \<open>ConfigManager\<close>, \<open>CpuInfo\<close>, \<open>Capacity\<close>, \<open>Config\<close>) are flattened into the record that
  holds them, the field named by its path.
\<close>

datatype error = Err string

datatype panic = DivideByZero

record ManagedObjectReference =
  Type :: string
  Value :: string

record AboutInfo =
  Version :: string

record HostHardwareSummary =
  Model :: string

record HostCpuPackage =
  Description :: string

record HostHardwareInfo =
  CpuInfo_NumCpuPackages :: "16 word"
  CpuInfo_NumCpuCores :: "16 word"
  CpuPkg :: "HostCpuPackage list"
  MemorySize :: "64 word"

record HostSystem =
  Parent :: "ManagedObjectReference option"
  Summary_Config_Name :: string
  Summary_Config_Product :: "AboutInfo option"
  Summary_Hardware :: "HostHardwareSummary option"
  Hardware :: "HostHardwareInfo option"
  ConfigManager_VsanSystem :: "ManagedObjectReference option"

text \<open>
  A disk: \<open>Capacity.BlockSize\<close> is an \<open>int32\<close>, \<open>Capacity.Block\<close> an \<open>int64\<close>;
  \<open>VsanDiskInfo\<close> is a pointer of which only the presence is read.
\<close>

record HostScsiDisk =
  Capacity_BlockSize :: "32 word"
  Capacity_Block :: "64 word"
  VsanDiskInfo :: "unit option"

record VsanHostDiskMapping =
  Ssd :: HostScsiDisk
  NonSsd :: "HostScsiDisk list"

record VsanHostConfigInfoStorageInfo =
  DiskMapping :: "VsanHostDiskMapping list"

record HostVsanSystem =
  Config_StorageInfo :: "VsanHostConfigInfoStorageInfo option"
  Config_VsanEsaEnabled :: "bool option"

record VsanHostDiskResult =
  Disk :: HostScsiDisk

subsection \<open>The remote calls\<close>

text \<open>
  The three calls that the passes make on the management server. Each takes the state
  \<open>'w\<close> of the outside world and returns the next one, so that a call may fail once and
  succeed later. \<open>RetrieveOne_name\<close> is \<open>pc.RetrieveOne\<close> with the property list
  \<open>["name"]\<close> (line 93), \<open>RetrieveOne_vsan\<close> is \<open>pc.RetrieveOne\<close> on a vSAN system
  (line 130), \<open>QueryDisksForVsan\<close> is the method of line 148.
\<close>

record 'w services =
  RetrieveOne_name :: "ManagedObjectReference \<Rightarrow> 'w \<Rightarrow> (error + string) \<times> 'w"
  RetrieveOne_vsan :: "ManagedObjectReference \<Rightarrow> 'w \<Rightarrow> (error + HostVsanSystem) \<times> 'w"
  QueryDisksForVsan :: "ManagedObjectReference \<Rightarrow> 'w \<Rightarrow> (error + VsanHostDiskResult list) \<times> 'w"

subsection \<open>Numbers as text\<close>

text \<open>
  \<open>strconv.Itoa\<close>, \<open>strconv.FormatInt(_, 10)\<close> and the verb \<open>%d\<close>: the decimal digits,
  most significant first, after a minus sign for a negative number.
\<close>

definition digit_char :: "nat \<Rightarrow> char" where
  "digit_char d = ''0123456789'' ! d"

fun digits :: "nat \<Rightarrow> string" where
  "digits n = (if n < 10 then [digit_char n] else digits (n div 10) @ [digit_char (n mod 10)])"

declare digits.simps [simp del]

definition Itoa :: "int \<Rightarrow> string" where
  "Itoa i = (if i < 0 then CHR ''-'' # digits (nat (- i)) else digits (nat i))"

text \<open>
  A finite \<open>float64\<close> is a rational number. \<open>float64(n)\<close> for an \<open>int64\<close> rounds \<open>n\<close> to
  53 significant bits, to nearest, ties to even; below \<open>2 ^ 53\<close> in magnitude nothing is
  lost. \<open>round_half_even a d\<close> is the quotient of \<open>a\<close> by \<open>d\<close> rounded that way.
\<close>

definition round_half_even :: "int \<Rightarrow> int \<Rightarrow> int" where
  "round_half_even a d =
     (let q = a div d; r = a mod d
      in if 2 * r < d then q
         else if d < 2 * r then q + 1
         else if even q then q else q + 1)"

fun excess_bits :: "nat \<Rightarrow> int \<Rightarrow> nat" where
  "excess_bits 0 a = 0"
| "excess_bits (Suc k) a = (if a < 2 ^ 53 then 0 else Suc (excess_bits k (a div 2)))"

definition float64_of_int64 :: "64 word \<Rightarrow> rat" where
  "float64_of_int64 n =
     (let a = \<bar>sint n\<bar>; e = excess_bits 11 a
      in of_int (sgn (sint n) * (round_half_even a (2 ^ e) * 2 ^ e)))"

text \<open>
  \<open>fmt.Sprintf("%.1f", x)\<close>: the decimal numeral with one digit after the point that is
  nearest to \<open>x\<close>, ties to even, with the sign of \<open>x\<close>.
\<close>

definition round_half_even_rat :: "rat \<Rightarrow> int" where
  "round_half_even_rat y =
     (let f = \<lfloor>y\<rfloor>; r = y - of_int f
      in if r < 1 / 2 then f
         else if 1 / 2 < r then f + 1
         else if even f then f else f + 1)"

definition Sprintf_1f :: "rat \<Rightarrow> string" where
  "Sprintf_1f x =
     (let t = round_half_even_rat (\<bar>x\<bar> * 10)
      in (if x < 0 then ''-'' else '''') @ Itoa (t div 10) @ ''.'' @ [digit_char (nat (t mod 10))])"

subsection \<open>Go's arithmetic\<close>

text \<open>
  Integer division truncates towards zero, wraps at the width of its operands and panics
  on a zero divisor.
\<close>

definition go_div :: "'a::len word \<Rightarrow> 'a word \<Rightarrow> panic + 'a word" where
  "go_div a b = (if b = 0 then Inl DivideByZero else Inr (word_of_int (sint a sdiv sint b)))"

text \<open>A Go map read \<open>m[k]\<close> gives the zero value of the element type for a missing key.\<close>

definition lookup_string :: "(string \<rightharpoonup> string) \<Rightarrow> string \<Rightarrow> string" where
  "lookup_string m k = (case m k of None \<Rightarrow> '''' | Some v \<Rightarrow> v)"

subsection \<open>First pass: group names (lines 84 to 98)\<close>

text \<open>
  The state of the loop is the map \<open>parentNames\<close>, the world, and a ghost list of the
  calls made so far: the \<open>Value\<close> of the reference asked for and whether the call
  succeeded.
\<close>

type_synonym call = "string \<times> bool"

definition parentNames_step ::
  "'w services \<Rightarrow> HostSystem \<Rightarrow> (string \<rightharpoonup> string) \<times> 'w \<times> call list
     \<Rightarrow> (string \<rightharpoonup> string) \<times> 'w \<times> call list" where
  "parentNames_step svc h st =
     (case st of (parentNames, w, calls) \<Rightarrow>
        (case Parent h of
           None \<Rightarrow> (parentNames, w, calls)
         | Some p \<Rightarrow>
             (case parentNames (Value p) of
                Some _ \<Rightarrow> (parentNames, w, calls)
              | None \<Rightarrow>
                  (case RetrieveOne_name svc p w of
                     (Inl err, w') \<Rightarrow> (parentNames, w', calls @ [(Value p, False)])
                   | (Inr name, w') \<Rightarrow>
                       (parentNames(Value p \<mapsto> name), w', calls @ [(Value p, True)])))))"

fun parentNames_loop ::
  "'w services \<Rightarrow> HostSystem list \<Rightarrow> (string \<rightharpoonup> string) \<times> 'w \<times> call list
     \<Rightarrow> (string \<rightharpoonup> string) \<times> 'w \<times> call list" where
  "parentNames_loop svc [] st = st"
| "parentNames_loop svc (h # hs) st = parentNames_loop svc hs (parentNames_step svc h st)"

subsection \<open>Second pass: anonymised group labels (lines 101 to 114)\<close>

definition anonClusters_step ::
  "(string \<rightharpoonup> string) \<Rightarrow> HostSystem \<Rightarrow> (string \<rightharpoonup> string) \<times> int \<Rightarrow> (string \<rightharpoonup> string) \<times> int" where
  "anonClusters_step parentNames h st =
     (case st of (anonClusters, idx) \<Rightarrow>
        (case Parent h of
           None \<Rightarrow> (anonClusters, idx)
         | Some p \<Rightarrow>
             (let realName = lookup_string parentNames (Value p)
              in case anonClusters realName of
                   Some _ \<Rightarrow> (anonClusters, idx)
                 | None \<Rightarrow> (anonClusters(realName \<mapsto> ''Cluster '' @ Itoa (idx + 1)), idx + 1))))"

fun anonClusters_loop ::
  "(string \<rightharpoonup> string) \<Rightarrow> HostSystem list \<Rightarrow> (string \<rightharpoonup> string) \<times> int \<Rightarrow> (string \<rightharpoonup> string) \<times> int" where
  "anonClusters_loop parentNames [] st = st"
| "anonClusters_loop parentNames (h # hs) st =
     anonClusters_loop parentNames hs (anonClusters_step parentNames h st)"

definition build_anonClusters ::
  "bool \<Rightarrow> (string \<rightharpoonup> string) \<Rightarrow> HostSystem list \<Rightarrow> (string \<rightharpoonup> string)" where
  "build_anonClusters anonymize parentNames hosts =
     (if anonymize then fst (anonClusters_loop parentNames hosts (Map.empty, 0)) else Map.empty)"

subsection \<open>Third pass: vSAN disk facts (lines 117 to 184)\<close>

record vsanHostInfo =
  capacityTiB :: rat
  totalDisks :: int
  cacheDisks :: int
  clusterType :: string

definition zero_vsanHostInfo :: vsanHostInfo where
  "zero_vsanHostInfo = \<lparr>capacityTiB = 0, totalDisks = 0, cacheDisks = 0, clusterType = ''''\<rparr>"

definition lookup_vsanInfo :: "(string \<rightharpoonup> vsanHostInfo) \<Rightarrow> string \<Rightarrow> vsanHostInfo" where
  "lookup_vsanInfo m k = (case m k of None \<Rightarrow> zero_vsanHostInfo | Some v \<Rightarrow> v)"

text \<open>\<open>int64(d.Capacity.BlockSize) * int64(d.Capacity.Block)\<close>, in 64-bit arithmetic.\<close>

definition disk_bytes :: "HostScsiDisk \<Rightarrow> 64 word" where
  "disk_bytes d = scast (Capacity_BlockSize d) * Capacity_Block d"

text \<open>Line 182: the division of a \<open>float64\<close> by \<open>2 ^ 40\<close> is exact.\<close>

definition tib_of_bytes :: "64 word \<Rightarrow> rat" where
  "tib_of_bytes capacityBytes = float64_of_int64 capacityBytes / (1024 * 1024 * 1024 * 1024)"

text \<open>The loop of lines 158 to 165 over the disks that the query returned.\<close>

fun esa_disks :: "VsanHostDiskResult list \<Rightarrow> int \<times> 64 word \<Rightarrow> int \<times> 64 word" where
  "esa_disks [] acc = acc"
| "esa_disks (dr # drs) (ndisks, capacityBytes) =
     (if VsanDiskInfo (Disk dr) \<noteq> None
      then esa_disks drs (ndisks + 1, capacityBytes + disk_bytes (Disk dr))
      else esa_disks drs (ndisks, capacityBytes))"

text \<open>The loops of lines 174 to 179 over the disk groups and their capacity disks.\<close>

fun nonssd_bytes :: "HostScsiDisk list \<Rightarrow> 64 word \<Rightarrow> 64 word" where
  "nonssd_bytes [] capacityBytes = capacityBytes"
| "nonssd_bytes (d # ds) capacityBytes = nonssd_bytes ds (capacityBytes + disk_bytes d)"

fun osa_groups :: "VsanHostDiskMapping list \<Rightarrow> int \<times> 64 word \<Rightarrow> int \<times> 64 word" where
  "osa_groups [] acc = acc"
| "osa_groups (dm # dms) (ndisks, capacityBytes) =
     osa_groups dms (ndisks + int (length (NonSsd dm)), nonssd_bytes (NonSsd dm) capacityBytes)"

text \<open>
  The body of the loop for one host: \<open>None\<close> where the code says \<open>continue\<close> and stores
  nothing, \<open>Some info\<close> where it reaches line 183.
\<close>

definition vsan_host :: "'w services \<Rightarrow> HostSystem \<Rightarrow> 'w \<Rightarrow> vsanHostInfo option \<times> 'w" where
  "vsan_host svc h w =
     (case ConfigManager_VsanSystem h of
        None \<Rightarrow> (None, w)
      | Some vsanRef \<Rightarrow>
          (case RetrieveOne_vsan svc vsanRef w of
             (Inl err, w1) \<Rightarrow> (None, w1)
           | (Inr vsanSys, w1) \<Rightarrow>
               if Config_VsanEsaEnabled vsanSys = Some True
               then
                 (case QueryDisksForVsan svc vsanRef w1 of
                    (Inl err, w2) \<Rightarrow>
                      (Some \<lparr>capacityTiB = tib_of_bytes 0, totalDisks = 0, cacheDisks = 0,
                             clusterType = ''ESA''\<rparr>, w2)
                  | (Inr res, w2) \<Rightarrow>
                      (case esa_disks res (0, 0) of (ndisks, capacityBytes) \<Rightarrow>
                         (Some \<lparr>capacityTiB = tib_of_bytes capacityBytes, totalDisks = ndisks,
                                cacheDisks = 0, clusterType = ''ESA''\<rparr>, w2)))
               else
                 (case Config_StorageInfo vsanSys of
                    None \<Rightarrow> (None, w1)
                  | Some si \<Rightarrow>
                      if length (DiskMapping si) = 0 then (None, w1)
                      else
                        (case osa_groups (DiskMapping si) (0, 0) of (ndisks, capacityBytes) \<Rightarrow>
                           (Some \<lparr>capacityTiB = tib_of_bytes capacityBytes, totalDisks = ndisks,
                                  cacheDisks = int (length (DiskMapping si)),
                                  clusterType = ''OSA''\<rparr>, w1)))))"

definition vsanInfo_step ::
  "'w services \<Rightarrow> HostSystem \<Rightarrow> (string \<rightharpoonup> vsanHostInfo) \<times> 'w \<Rightarrow> (string \<rightharpoonup> vsanHostInfo) \<times> 'w" where
  "vsanInfo_step svc h st =
     (case st of (vsanInfo, w) \<Rightarrow>
        (case vsan_host svc h w of
           (None, w') \<Rightarrow> (vsanInfo, w')
         | (Some info, w') \<Rightarrow> (vsanInfo(Summary_Config_Name h \<mapsto> info), w')))"

fun vsanInfo_loop ::
  "'w services \<Rightarrow> HostSystem list \<Rightarrow> (string \<rightharpoonup> vsanHostInfo) \<times> 'w \<Rightarrow> (string \<rightharpoonup> vsanHostInfo) \<times> 'w" where
  "vsanInfo_loop svc [] st = st"
| "vsanInfo_loop svc (h # hs) st = vsanInfo_loop svc hs (vsanInfo_step svc h st)"

subsection \<open>The rows (lines 194 to 253)\<close>

definition header :: "string list" where
  "header = [''Hostname'', ''Cluster'', ''Server Model'', ''ESXi Version'', ''CPU Model'',
     ''Socket Count'', ''Cores per Socket'', ''Total Cores'', ''Memory GB'', ''vSAN Type'',
     ''vSAN Capacity Disks'', ''vSAN Cache Disks'', ''vSAN Capacity TiB'']"

definition row_hostname :: "bool \<Rightarrow> nat \<Rightarrow> HostSystem \<Rightarrow> string" where
  "row_hostname anonymize i h =
     (if anonymize then ''Host '' @ Itoa (int i + 1) else Summary_Config_Name h)"

definition row_cluster ::
  "bool \<Rightarrow> (string \<rightharpoonup> string) \<Rightarrow> (string \<rightharpoonup> string) \<Rightarrow> HostSystem \<Rightarrow> string" where
  "row_cluster anonymize parentNames anonClusters h =
     (case Parent h of
        None \<Rightarrow> ''''
      | Some p \<Rightarrow>
          (let cluster = lookup_string parentNames (Value p)
           in if anonymize then lookup_string anonClusters cluster else cluster))"

definition row_serverModel :: "HostSystem \<Rightarrow> string" where
  "row_serverModel h = (case Summary_Hardware h of None \<Rightarrow> '''' | Some hw \<Rightarrow> Model hw)"

definition row_esxiVersion :: "HostSystem \<Rightarrow> string" where
  "row_esxiVersion h = (case Summary_Config_Product h of None \<Rightarrow> '''' | Some p \<Rightarrow> Version p)"

definition row_cpuModel :: "HostSystem \<Rightarrow> string" where
  "row_cpuModel h =
     (case Hardware h of
        None \<Rightarrow> ''''
      | Some hw \<Rightarrow> (case CpuPkg hw of [] \<Rightarrow> '''' | pkg # _ \<Rightarrow> Description pkg))"

text \<open>
  Lines 225 to 234: \<open>sockets\<close>, \<open>totalCores\<close>, \<open>coresPerSocket\<close> (all \<open>int16\<close>) and
  \<open>memoryGB\<close> (\<open>int64\<close>), zero unless the hardware is present.
\<close>

definition row_cpu :: "HostSystem \<Rightarrow> panic + (16 word \<times> 16 word \<times> 16 word \<times> 64 word)" where
  "row_cpu h =
     (case Hardware h of
        None \<Rightarrow> Inr (0, 0, 0, 0)
      | Some hw \<Rightarrow>
          (let sockets = CpuInfo_NumCpuPackages hw;
               totalCores = CpuInfo_NumCpuCores hw
           in case (if 0 < sint sockets then go_div totalCores sockets else Inr 0) of
                Inl p \<Rightarrow> Inl p
              | Inr coresPerSocket \<Rightarrow>
                  (case go_div (MemorySize hw) (1024 * 1024 * 1024) of
                     Inl p \<Rightarrow> Inl p
                   | Inr memoryGB \<Rightarrow> Inr (sockets, totalCores, coresPerSocket, memoryGB))))"

definition write_row ::
  "bool \<Rightarrow> (string \<rightharpoonup> string) \<Rightarrow> (string \<rightharpoonup> string) \<Rightarrow> (string \<rightharpoonup> vsanHostInfo)
     \<Rightarrow> nat \<Rightarrow> HostSystem \<Rightarrow> panic + string list" where
  "write_row anonymize parentNames anonClusters vsanInfo i h =
     (case row_cpu h of
        Inl p \<Rightarrow> Inl p
      | Inr (sockets, totalCores, coresPerSocket, memoryGB) \<Rightarrow>
          (let info = lookup_vsanInfo vsanInfo (Summary_Config_Name h)
           in Inr [row_hostname anonymize i h,
                   row_cluster anonymize parentNames anonClusters h,
                   row_serverModel h,
                   row_esxiVersion h,
                   row_cpuModel h,
                   Itoa (sint sockets),
                   Itoa (sint coresPerSocket),
                   Itoa (sint totalCores),
                   Itoa (sint memoryGB),
                   clusterType info,
                   Itoa (totalDisks info),
                   Itoa (cacheDisks info),
                   Sprintf_1f (capacityTiB info)]))"

text \<open>The loop of line 196; a panic ends the run.\<close>

fun write_rows ::
  "bool \<Rightarrow> (string \<rightharpoonup> string) \<Rightarrow> (string \<rightharpoonup> string) \<Rightarrow> (string \<rightharpoonup> vsanHostInfo)
     \<Rightarrow> nat \<Rightarrow> HostSystem list \<Rightarrow> panic + string list list" where
  "write_rows anonymize parentNames anonClusters vsanInfo i [] = Inr []"
| "write_rows anonymize parentNames anonClusters vsanInfo i (h # hs) =
     (case write_row anonymize parentNames anonClusters vsanInfo i h of
        Inl p \<Rightarrow> Inl p
      | Inr r \<Rightarrow>
          (case write_rows anonymize parentNames anonClusters vsanInfo (Suc i) hs of
             Inl p \<Rightarrow> Inl p
           | Inr rs \<Rightarrow> Inr (r # rs)))"

text \<open>
  The run from the retrieved host list on: the three passes, then the rows. The result
  is the list of records after the header, or the panic that stopped the run.
\<close>

definition inventory ::
  "'w services \<Rightarrow> bool \<Rightarrow> HostSystem list \<Rightarrow> 'w \<Rightarrow> panic + string list list" where
  "inventory svc anonymize hosts w0 =
     (case parentNames_loop svc hosts (Map.empty, w0, []) of (parentNames, w1, calls) \<Rightarrow>
        (let anonClusters = build_anonClusters anonymize parentNames hosts
         in case vsanInfo_loop svc hosts (Map.empty, w1) of (vsanInfo, w2) \<Rightarrow>
              write_rows anonymize parentNames anonClusters vsanInfo 0 hosts))"

subsection \<open>What the passes are compared with\<close>

text \<open>
  The facts that each host of the list stores at line 183, in the order of the list and
  with the state of the server threaded as the third pass threads it: the display name
  of the host, and \<open>None\<close> where the pass stores nothing for it.
\<close>

fun vsan_outcomes ::
  "'w services \<Rightarrow> HostSystem list \<Rightarrow> 'w \<Rightarrow> (string \<times> vsanHostInfo option) list" where
  "vsan_outcomes svc [] w = []"
| "vsan_outcomes svc (h # hs) w =
     (case vsan_host svc h w of (r, w') \<Rightarrow> (Summary_Config_Name h, r) # vsan_outcomes svc hs w')"

text \<open>The facts stored under one display name, oldest first.\<close>

fun stored_for :: "string \<Rightarrow> (string \<times> vsanHostInfo option) list \<Rightarrow> vsanHostInfo list" where
  "stored_for n [] = []"
| "stored_for n ((n', None) # os) = stored_for n os"
| "stored_for n ((n', Some info) # os) =
     (if n' = n then info # stored_for n os else stored_for n os)"


text \<open>
  The names in a list, each once, in the order in which they are first met, after those
  already seen.
\<close>

fun first_seen_from :: "'a list \<Rightarrow> 'a list \<Rightarrow> 'a list" where
  "first_seen_from seen [] = seen"
| "first_seen_from seen (x # xs) =
     first_seen_from (if x \<in> set seen then seen else seen @ [x]) xs"

text \<open>
  The name that the second pass reads for each host that has a parent (line 108), in the
  order of the list.
\<close>

fun real_names :: "(string \<rightharpoonup> string) \<Rightarrow> HostSystem list \<Rightarrow> string list" where
  "real_names parentNames [] = []"
| "real_names parentNames (h # hs) =
     (case Parent h of
        None \<Rightarrow> real_names parentNames hs
      | Some p \<Rightarrow> lookup_string parentNames (Value p) # real_names parentNames hs)"

text \<open>
  The rendering that cuts the digits after the first decimal place off instead of
  rounding, to compare \<open>Sprintf_1f\<close> with.
\<close>

definition truncate_1f :: "rat \<Rightarrow> string" where
  "truncate_1f x =
     (let t = \<lfloor>\<bar>x\<bar> * 10\<rfloor>
      in (if x < 0 then ''-'' else '''') @ Itoa (t div 10) @ ''.'' @ [digit_char (nat (t mod 10))])"

text \<open>
  The state of the server when the third pass reaches the host at position \<open>i\<close> of the
  list: the one left by the first pass and by the third pass on the hosts before it.
\<close>

definition world_at :: "'w services \<Rightarrow> HostSystem list \<Rightarrow> 'w \<Rightarrow> nat \<Rightarrow> 'w" where
  "world_at svc hosts w0 i =
     snd (vsanInfo_loop svc (take i hosts)
            (Map.empty, fst (snd (parentNames_loop svc hosts (Map.empty, w0, [])))))"

subsection \<open>Sample inputs\<close>

text \<open>
  A cluster, a vSAN system, hosts and disks to run the passes on. A disk of
  \<open>512 * 1953125000\<close> bytes is a terabyte; one of \<open>512 * 1879048192\<close> bytes is seven
  eighths of a tebibyte.
\<close>

definition cluster_ref :: ManagedObjectReference where
  "cluster_ref = \<lparr>Type = ''ClusterComputeResource'', Value = ''domain-c8''\<rparr>"

definition vsan_ref :: ManagedObjectReference where
  "vsan_ref = \<lparr>Type = ''HostVsanSystem'', Value = ''vsanSystem-21''\<rparr>"

definition sample_host ::
  "string \<Rightarrow> ManagedObjectReference option \<Rightarrow> ManagedObjectReference option \<Rightarrow> HostSystem" where
  "sample_host name parent vsan =
     \<lparr>Parent = parent, Summary_Config_Name = name,
      Summary_Config_Product = Some \<lparr>Version = ''8.0.2''\<rparr>,
      Summary_Hardware = Some \<lparr>Model = ''R650''\<rparr>,
      Hardware = Some \<lparr>CpuInfo_NumCpuPackages = 2, CpuInfo_NumCpuCores = 32,
                        CpuPkg = [\<lparr>Description = ''Xeon''\<rparr>], MemorySize = 137438953472\<rparr>,
      ConfigManager_VsanSystem = vsan\<rparr>"

definition disk_1TB :: HostScsiDisk where
  "disk_1TB = \<lparr>Capacity_BlockSize = 512, Capacity_Block = 1953125000, VsanDiskInfo = Some ()\<rparr>"

definition spare_disk :: HostScsiDisk where
  "spare_disk = \<lparr>Capacity_BlockSize = 512, Capacity_Block = 1953125000, VsanDiskInfo = None\<rparr>"

definition disk_7_8_TiB :: HostScsiDisk where
  "disk_7_8_TiB = \<lparr>Capacity_BlockSize = 512, Capacity_Block = 1879048192, VsanDiskInfo = Some ()\<rparr>"

text \<open>A disk of \<open>4096 * 2251799813685249\<close> bytes, which is \<open>2 ^ 63 + 4096\<close>.\<close>

definition huge_disk :: HostScsiDisk where
  "huge_disk =
     \<lparr>Capacity_BlockSize = 4096, Capacity_Block = 2251799813685249, VsanDiskInfo = Some ()\<rparr>"

definition other_cluster_ref :: ManagedObjectReference where
  "other_cluster_ref = \<lparr>Type = ''ClusterComputeResource'', Value = ''domain-c9''\<rparr>"

definition other_vsan_ref :: ManagedObjectReference where
  "other_vsan_ref = \<lparr>Type = ''HostVsanSystem'', Value = ''vsanSystem-22''\<rparr>"

definition huge_osa_system :: HostVsanSystem where
  "huge_osa_system =
     \<lparr>Config_StorageInfo = Some \<lparr>DiskMapping = [\<lparr>Ssd = disk_1TB, NonSsd = [huge_disk]\<rparr>]\<rparr>,
      Config_VsanEsaEnabled = None\<rparr>"

definition osa_storage :: VsanHostConfigInfoStorageInfo where
  "osa_storage =
     \<lparr>DiskMapping = [\<lparr>Ssd = disk_1TB, NonSsd = [disk_1TB, disk_1TB, disk_1TB, disk_1TB]\<rparr>]\<rparr>"

definition osa_system :: HostVsanSystem where
  "osa_system = \<lparr>Config_StorageInfo = Some osa_storage, Config_VsanEsaEnabled = None\<rparr>"

definition empty_osa_system :: HostVsanSystem where
  "empty_osa_system =
     \<lparr>Config_StorageInfo = Some \<lparr>DiskMapping = []\<rparr>, Config_VsanEsaEnabled = Some False\<rparr>"

definition esa_system :: HostVsanSystem where
  "esa_system = \<lparr>Config_StorageInfo = None, Config_VsanEsaEnabled = Some True\<rparr>"

text \<open>A server that gives the same three answers to every call.\<close>

definition constant_services ::
  "error + string \<Rightarrow> error + HostVsanSystem \<Rightarrow> error + VsanHostDiskResult list \<Rightarrow> unit services" where
  "constant_services name sys disks =
     \<lparr>RetrieveOne_name = (\<lambda>r w. (name, w)),
      RetrieveOne_vsan = (\<lambda>r w. (sys, w)),
      QueryDisksForVsan = (\<lambda>r w. (disks, w))\<rparr>"

text \<open>
  A server on which \<open>vsan_ref\<close> is an ESA system with one disk in use and every other vSAN
  system has an empty disk-mapping list; it resolves no name.
\<close>

definition mixed_services :: "unit services" where
  "mixed_services =
     \<lparr>RetrieveOne_name = (\<lambda>r w. (Inl (Err ''timeout''), w)),
      RetrieveOne_vsan =
        (\<lambda>r w. (if Value r = ''vsanSystem-21'' then Inr esa_system else Inr empty_osa_system, w)),
      QueryDisksForVsan = (\<lambda>r w. (Inr [\<lparr>Disk = disk_7_8_TiB\<rparr>], w))\<rparr>"

text \<open>
  A server whose state counts the calls for a name: the first one times out, the later
  ones succeed.
\<close>

definition flaky_services :: "nat services" where
  "flaky_services =
     \<lparr>RetrieveOne_name =
        (\<lambda>r w. (if w = 0 then Inl (Err ''timeout'') else Inr ''Prod'', Suc w)),
      RetrieveOne_vsan = (\<lambda>r w. (Inl (Err ''timeout''), w)),
      QueryDisksForVsan = (\<lambda>r w. (Inl (Err ''timeout''), w))\<rparr>"

section \<open>Properties\<close>

subsection \<open>Decimal text\<close>

lemma digit_char_inj: "a < 10 \<Longrightarrow> b < 10 \<Longrightarrow> digit_char a = digit_char b \<Longrightarrow> a = b"
  unfolding digit_char_def
  by (simp add: nth_eq_iff_index_eq)

lemma digits_ne: "digits n \<noteq> []"
  by (subst digits.simps) simp

lemma digits_snoc: "\<exists>xs. digits n = xs @ [digit_char (n mod 10)]"
  by (subst digits.simps) auto

lemma digits_inj: "digits a = digits b \<Longrightarrow> a = b"
proof (induction a arbitrary: b rule: digits.induct)
  case (1 n)
  show ?case
  proof (cases "n < 10")
    case True
    then have a: "digits n = [digit_char n]" by (subst digits.simps) simp
    show ?thesis
    proof (cases "b < 10")
      case True
      then have "digits b = [digit_char b]" by (subst digits.simps) simp
      with a 1(2) \<open>n < 10\<close> True show ?thesis by (auto dest: digit_char_inj)
    next
      case False
      then have "digits b = digits (b div 10) @ [digit_char (b mod 10)]" by (subst digits.simps) simp
      with a 1(2) have "digits (b div 10) = []" by simp
      then show ?thesis by (simp add: digits_ne)
    qed
  next
    case False
    then have a: "digits n = digits (n div 10) @ [digit_char (n mod 10)]" by (subst digits.simps) simp
    show ?thesis
    proof (cases "b < 10")
      case True
      then have "digits b = [digit_char b]" by (subst digits.simps) simp
      with a 1(2) have "digits (n div 10) = []" by simp
      then show ?thesis by (simp add: digits_ne)
    next
      case b: False
      then have "digits b = digits (b div 10) @ [digit_char (b mod 10)]" by (subst digits.simps) simp
      with a 1(2) have e: "digits (n div 10) = digits (b div 10)" "digit_char (n mod 10) = digit_char (b mod 10)"
        by simp_all
      from 1(1)[OF False e(1)] have "n div 10 = b div 10" .
      moreover from e(2) have "n mod 10 = b mod 10" by (auto dest!: digit_char_inj[rotated 2])
      ultimately show ?thesis by (metis div_mult_mod_eq)
    qed
  qed
qed

lemma Itoa_nat_inj: "0 \<le> a \<Longrightarrow> 0 \<le> b \<Longrightarrow> Itoa a = Itoa b \<Longrightarrow> a = b"
  by (auto simp: Itoa_def dest!: digits_inj)

subsection \<open>The CPU columns\<close>

lemma sdiv_pos_bounds:
  fixes a b :: int
  assumes "0 < b" "- (2 ^ 15) \<le> a" "a < 2 ^ 15"
  shows "- (2 ^ 15) \<le> a sdiv b \<and> a sdiv b < 2 ^ 15"
proof -
  have q: "\<bar>a\<bar> div \<bar>b\<bar> \<le> \<bar>a\<bar>"
  proof (cases "a = 0")
    case True
    then show ?thesis by simp
  next
    case False
    then have "0 < \<bar>a\<bar>" by simp
    then show ?thesis by (rule int_div_le_self)
  qed
  have "0 < \<bar>b\<bar>" using assms(1) by simp
  then have nn: "0 \<le> \<bar>a\<bar> div \<bar>b\<bar>" by (simp add: pos_imp_zdiv_nonneg_iff)
  show ?thesis
  proof (cases "0 \<le> a")
    case True
    then have "a sdiv b = \<bar>a\<bar> div \<bar>b\<bar> \<or> a sdiv b = 0" using assms(1)
      by (auto simp: signed_divide_int_def sgn_if)
    then show ?thesis using q nn True assms by auto
  next
    case False
    then have "a sdiv b = - (\<bar>a\<bar> div \<bar>b\<bar>)" using assms(1)
      by (auto simp: signed_divide_int_def sgn_if)
    then show ?thesis using q nn False assms by auto
  qed
qed

lemma sint_go_div16:
  fixes a b :: "16 word"
  assumes "0 < sint b"
  shows "go_div a b = Inr (word_of_int (sint a sdiv sint b)) \<and>
         sint (word_of_int (sint a sdiv sint b) :: 16 word) = sint a sdiv sint b"
proof -
  from assms have nz: "b \<noteq> 0" by auto
  have lo: "- (2 ^ 15) \<le> sint a" using sint_ge [of a] by simp
  have hi: "sint a < 2 ^ 15" using sint_lt [of a] by simp
  from sdiv_pos_bounds [OF assms lo hi]
  have "sint (word_of_int (sint a sdiv sint b) :: 16 word) = sint a sdiv sint b"
    by (simp add: sint_sbintrunc' signed_take_bit_int_eq_self)
  with nz show ?thesis by (simp add: go_div_def)
qed

lemma go_div_const: "go_div (m :: 64 word) 1073741824 = Inr (word_of_int (sint m sdiv 1073741824))"
  by (simp add: go_div_def)

lemma Itoa_0: "Itoa 0 = ''0''"
  by (simp add: Itoa_def digits.simps digit_char_def)

lemma row_cpu_None: "Hardware h = None \<Longrightarrow> row_cpu h = Inr (0, 0, 0, 0)"
  by (simp add: row_cpu_def)

lemma row_cpu_Some:
  "Hardware h = Some hw \<Longrightarrow>
   row_cpu h = Inr (CpuInfo_NumCpuPackages hw, CpuInfo_NumCpuCores hw,
     (if 0 < sint (CpuInfo_NumCpuPackages hw)
      then word_of_int (sint (CpuInfo_NumCpuCores hw) sdiv sint (CpuInfo_NumCpuPackages hw)) else 0),
     word_of_int (sint (MemorySize hw) sdiv 1073741824))"
  using sint_go_div16 [of "CpuInfo_NumCpuPackages hw" "CpuInfo_NumCpuCores hw"]
  by (simp add: row_cpu_def Let_def go_div_const)

lemma row_cpu_total: "\<exists>s t c m. row_cpu h = Inr (s, t, c, m)"
  by (cases "Hardware h") (simp_all add: row_cpu_None row_cpu_Some)


lemma write_row_Inr:
  "\<exists>s t c m. row_cpu h = Inr (s, t, c, m) \<and>
     write_row anonymize parentNames anonClusters vsanInfo i h =
       Inr [row_hostname anonymize i h,
            row_cluster anonymize parentNames anonClusters h,
            row_serverModel h, row_esxiVersion h, row_cpuModel h,
            Itoa (sint s), Itoa (sint c), Itoa (sint t), Itoa (sint m),
            clusterType (lookup_vsanInfo vsanInfo (Summary_Config_Name h)),
            Itoa (totalDisks (lookup_vsanInfo vsanInfo (Summary_Config_Name h))),
            Itoa (cacheDisks (lookup_vsanInfo vsanInfo (Summary_Config_Name h))),
            Sprintf_1f (capacityTiB (lookup_vsanInfo vsanInfo (Summary_Config_Name h)))]"
proof -
  obtain s t c m where "row_cpu h = Inr (s, t, c, m)" using row_cpu_total by blast
  then show ?thesis by (simp add: write_row_def Let_def)
qed

text \<open>
  C7. For every host the row is written without a panic, so no division by zero is
  performed, and its cores-per-socket field (column 6, counted from 0) is the decimal
  text of the total core count divided by the socket count, Go's integer division, when
  the socket count is positive; it is \<open>0\<close> when the socket count is zero (or negative)
  and when the hardware is absent.
\<close>

theorem coresPerSocket_field:
  "\<exists>r. write_row anonymize parentNames anonClusters vsanInfo i h = Inr r \<and>
     (Hardware h = None \<longrightarrow> r ! 6 = ''0'') \<and>
     (\<forall>hw. Hardware h = Some hw \<longrightarrow>
        (0 < sint (CpuInfo_NumCpuPackages hw) \<longrightarrow>
           r ! 6 = Itoa (sint (CpuInfo_NumCpuCores hw) sdiv sint (CpuInfo_NumCpuPackages hw))) \<and>
        (CpuInfo_NumCpuPackages hw = 0 \<longrightarrow> r ! 6 = ''0'') \<and>
        (sint (CpuInfo_NumCpuPackages hw) < 0 \<longrightarrow> r ! 6 = ''0''))"
proof -
  obtain s t c m where rc: "row_cpu h = Inr (s, t, c, m)"
    and wr: "write_row anonymize parentNames anonClusters vsanInfo i h =
       Inr [row_hostname anonymize i h,
            row_cluster anonymize parentNames anonClusters h,
            row_serverModel h, row_esxiVersion h, row_cpuModel h,
            Itoa (sint s), Itoa (sint c), Itoa (sint t), Itoa (sint m),
            clusterType (lookup_vsanInfo vsanInfo (Summary_Config_Name h)),
            Itoa (totalDisks (lookup_vsanInfo vsanInfo (Summary_Config_Name h))),
            Itoa (cacheDisks (lookup_vsanInfo vsanInfo (Summary_Config_Name h))),
            Sprintf_1f (capacityTiB (lookup_vsanInfo vsanInfo (Summary_Config_Name h)))]"
    using write_row_Inr by blast
  have none: "Hardware h = None \<Longrightarrow> c = 0"
    using rc by (simp add: row_cpu_None)
  have some: "Hardware h = Some hw \<Longrightarrow>
      c = (if 0 < sint (CpuInfo_NumCpuPackages hw)
           then word_of_int (sint (CpuInfo_NumCpuCores hw) sdiv sint (CpuInfo_NumCpuPackages hw)) else 0)" for hw
    using rc by (auto simp: row_cpu_Some)
  have pos: "Hardware h = Some hw \<Longrightarrow> 0 < sint (CpuInfo_NumCpuPackages hw) \<Longrightarrow>
      sint c = sint (CpuInfo_NumCpuCores hw) sdiv sint (CpuInfo_NumCpuPackages hw)" for hw
    using some [of hw] sint_go_div16 [of "CpuInfo_NumCpuPackages hw" "CpuInfo_NumCpuCores hw"] by simp
  have zero: "Hardware h = Some hw \<Longrightarrow> \<not> 0 < sint (CpuInfo_NumCpuPackages hw) \<Longrightarrow> c = 0" for hw
    using some [of hw] by simp
  show ?thesis
    unfolding wr using none zero pos by (auto simp: Itoa_0)
qed

theorem coresPerSocket_field_witness:
  "\<exists>r. write_row False Map.empty Map.empty Map.empty 0
        \<lparr>Parent = None, Summary_Config_Name = ''esx1'', Summary_Config_Product = None,
         Summary_Hardware = None,
         Hardware = Some \<lparr>CpuInfo_NumCpuPackages = 2, CpuInfo_NumCpuCores = 32, CpuPkg = [],
                           MemorySize = 137438953472\<rparr>,
         ConfigManager_VsanSystem = None\<rparr> = Inr r \<and> r ! 6 = ''16''"
  using coresPerSocket_field [of False Map.empty Map.empty Map.empty 0
        "\<lparr>Parent = None, Summary_Config_Name = ''esx1'', Summary_Config_Product = None,
         Summary_Hardware = None,
         Hardware = Some \<lparr>CpuInfo_NumCpuPackages = 2, CpuInfo_NumCpuCores = 32, CpuPkg = [],
                           MemorySize = 137438953472\<rparr>,
         ConfigManager_VsanSystem = None\<rparr>"]
  by (simp add: signed_divide_int_def Itoa_def digits.simps digit_char_def)

subsection \<open>The disk loops\<close>

lemma nonssd_bytes_sum: "nonssd_bytes ds b = b + sum_list (map disk_bytes ds)"
  by (induction ds arbitrary: b) (simp_all add: add.assoc)

lemma osa_groups_sum:
  "osa_groups dms (n, b) =
     (n + (\<Sum>dm\<leftarrow>dms. int (length (NonSsd dm))),
      b + sum_list (map disk_bytes (concat (map NonSsd dms))))"
  by (induction dms arbitrary: n b) (simp_all add: nonssd_bytes_sum add.assoc)

lemma esa_disks_sum:
  "esa_disks drs (n, b) =
     (n + int (length (filter (\<lambda>dr. VsanDiskInfo (Disk dr) \<noteq> None) drs)),
      b + (\<Sum>dr\<leftarrow>filter (\<lambda>dr. VsanDiskInfo (Disk dr) \<noteq> None) drs. disk_bytes (Disk dr)))"
  by (induction drs arbitrary: n b) (simp_all add: add.assoc)

lemma disk_bytes_int:
  "disk_bytes d = word_of_int (sint (Capacity_BlockSize d) * sint (Capacity_Block d))"
  by (simp add: disk_bytes_def)

lemma sum_disk_bytes_int:
  "sum_list (map disk_bytes ds) =
     word_of_int (\<Sum>d\<leftarrow>ds. sint (Capacity_BlockSize d) * sint (Capacity_Block d))"
  by (induction ds) (simp_all add: disk_bytes_int)

lemma sint_sum_disk_bytes:
  assumes "- (2 ^ 63) \<le> (\<Sum>d\<leftarrow>ds. sint (Capacity_BlockSize d) * sint (Capacity_Block d))"
    and "(\<Sum>d\<leftarrow>ds. sint (Capacity_BlockSize d) * sint (Capacity_Block d)) < 2 ^ 63"
  shows "sint (sum_list (map disk_bytes ds)) =
     (\<Sum>d\<leftarrow>ds. sint (Capacity_BlockSize d) * sint (Capacity_Block d))"
  using assms by (simp add: sum_disk_bytes_int sint_sbintrunc' signed_take_bit_int_eq_self)

lemma float64_exact:
  assumes "\<bar>sint n\<bar> < 2 ^ 53"
  shows "float64_of_int64 n = of_int (sint n)"
proof -
  have e: "excess_bits 11 \<bar>sint n\<bar> = 0"
    using assms by (simp add: numeral_eq_Suc)
  have "sgn (sint n) * (round_half_even \<bar>sint n\<bar> (2 ^ 0) * 2 ^ 0) = sint n"
    by (simp add: round_half_even_def mult_sgn_abs)
  then show ?thesis
    by (simp only: float64_of_int64_def Let_def e)
qed

lemma tib_of_bytes_0: "tib_of_bytes 0 = 0"
  by (simp add: tib_of_bytes_def float64_of_int64_def Let_def round_half_even_def)

lemma Sprintf_1f_0: "Sprintf_1f 0 = ''0.0''"
  by (simp add: Sprintf_1f_def round_half_even_rat_def Let_def Itoa_def digits.simps digit_char_def)

lemma tib_of_sum_exact:
  assumes "\<bar>\<Sum>d\<leftarrow>ds. sint (Capacity_BlockSize d) * sint (Capacity_Block d)\<bar> < 2 ^ 53"
  shows "tib_of_bytes (sum_list (map disk_bytes ds)) =
     of_int (\<Sum>d\<leftarrow>ds. sint (Capacity_BlockSize d) * sint (Capacity_Block d)) / 1024 ^ 4"
proof -
  let ?S = "\<Sum>d\<leftarrow>ds. sint (Capacity_BlockSize d) * sint (Capacity_Block d)"
  have "(2 :: int) ^ 53 < 2 ^ 63" by simp
  then have "- (2 ^ 63) \<le> ?S" "?S < 2 ^ 63" using assms by linarith+
  then have e: "sint (sum_list (map disk_bytes ds)) = ?S" by (rule sint_sum_disk_bytes)
  then have "\<bar>sint (sum_list (map disk_bytes ds))\<bar> < 2 ^ 53" using assms by simp
  then have "float64_of_int64 (sum_list (map disk_bytes ds)) = of_int ?S"
    using float64_exact [of "sum_list (map disk_bytes ds)"] e by (simp only:)
  then show ?thesis by (simp add: tib_of_bytes_def)
qed

subsection \<open>The facts stored for one host\<close>

lemma write_row_columns:
  "\<exists>r. write_row anonymize parentNames anonClusters vsanInfo i h = Inr r \<and>
     length r = 13 \<and>
     r ! 0 = row_hostname anonymize i h \<and>
     r ! 1 = row_cluster anonymize parentNames anonClusters h \<and>
     drop 9 r =
       [clusterType (lookup_vsanInfo vsanInfo (Summary_Config_Name h)),
        Itoa (totalDisks (lookup_vsanInfo vsanInfo (Summary_Config_Name h))),
        Itoa (cacheDisks (lookup_vsanInfo vsanInfo (Summary_Config_Name h))),
        Sprintf_1f (capacityTiB (lookup_vsanInfo vsanInfo (Summary_Config_Name h)))]"
proof -
  obtain s t c m where "row_cpu h = Inr (s, t, c, m)" using row_cpu_total by blast
  then show ?thesis by (simp add: write_row_def Let_def)
qed

text \<open>
  C4, as the code has it. For a host whose vSAN system is fetched, is not flagged ESA and has a non-empty
  disk-mapping list, the pass stores the tag \<open>OSA\<close>, as cache-disk count the number of
  disk-mapping entries, as capacity-disk count the sum over the entries of the number of
  their non-SSD disks, and as capacity the TiB value of the sum of block size times block
  count over exactly those non-SSD disks. The sum is the one of the code, in 64-bit
  arithmetic: the integer sum of the products, taken modulo \<open>2 ^ 64\<close>, which is the
  integer sum itself whenever that fits an \<open>int64\<close>. Where the integer sum is below
  \<open>2 ^ 53\<close> in magnitude the stored capacity is that sum divided by \<open>1024 ^ 4\<close>.
\<close>

theorem osa_disk_counts:
  assumes "ConfigManager_VsanSystem h = Some vsanRef"
    and "RetrieveOne_vsan svc vsanRef w = (Inr vsanSys, w1)"
    and "Config_VsanEsaEnabled vsanSys \<noteq> Some True"
    and "Config_StorageInfo vsanSys = Some si"
    and "DiskMapping si \<noteq> []"
  shows "vsan_host svc h w =
           (Some \<lparr>capacityTiB =
                     tib_of_bytes (\<Sum>d\<leftarrow>concat (map NonSsd (DiskMapping si)). disk_bytes d),
                   totalDisks = (\<Sum>dm\<leftarrow>DiskMapping si. int (length (NonSsd dm))),
                   cacheDisks = int (length (DiskMapping si)),
                   clusterType = ''OSA''\<rparr>, w1) \<and>
         (\<Sum>d\<leftarrow>concat (map NonSsd (DiskMapping si)). disk_bytes d) =
           word_of_int (\<Sum>d\<leftarrow>concat (map NonSsd (DiskMapping si)).
                          sint (Capacity_BlockSize d) * sint (Capacity_Block d)) \<and>
         (- (2 ^ 63) \<le> (\<Sum>d\<leftarrow>concat (map NonSsd (DiskMapping si)).
                          sint (Capacity_BlockSize d) * sint (Capacity_Block d)) \<and>
          (\<Sum>d\<leftarrow>concat (map NonSsd (DiskMapping si)).
             sint (Capacity_BlockSize d) * sint (Capacity_Block d)) < 2 ^ 63 \<longrightarrow>
          sint (\<Sum>d\<leftarrow>concat (map NonSsd (DiskMapping si)). disk_bytes d) =
            (\<Sum>d\<leftarrow>concat (map NonSsd (DiskMapping si)).
               sint (Capacity_BlockSize d) * sint (Capacity_Block d))) \<and>
         (\<bar>\<Sum>d\<leftarrow>concat (map NonSsd (DiskMapping si)).
             sint (Capacity_BlockSize d) * sint (Capacity_Block d)\<bar> < 2 ^ 53 \<longrightarrow>
          tib_of_bytes (\<Sum>d\<leftarrow>concat (map NonSsd (DiskMapping si)). disk_bytes d) =
            of_int (\<Sum>d\<leftarrow>concat (map NonSsd (DiskMapping si)).
                      sint (Capacity_BlockSize d) * sint (Capacity_Block d)) / 1024 ^ 4)"
proof -
  have "vsan_host svc h w =
           (Some \<lparr>capacityTiB =
                     tib_of_bytes (\<Sum>d\<leftarrow>concat (map NonSsd (DiskMapping si)). disk_bytes d),
                   totalDisks = (\<Sum>dm\<leftarrow>DiskMapping si. int (length (NonSsd dm))),
                   cacheDisks = int (length (DiskMapping si)),
                   clusterType = ''OSA''\<rparr>, w1)"
    using assms by (simp add: vsan_host_def osa_groups_sum)
  then show ?thesis
    using sum_disk_bytes_int [of "concat (map NonSsd (DiskMapping si))"]
      sint_sum_disk_bytes [of "concat (map NonSsd (DiskMapping si))"]
      tib_of_sum_exact [of "concat (map NonSsd (DiskMapping si))"]
    by blast
qed

theorem osa_disk_counts_witness:
  "vsan_host (constant_services (Inl (Err ''x'')) (Inr osa_system) (Inl (Err ''x'')))
     (sample_host ''esx1'' None (Some vsan_ref)) () =
   (Some \<lparr>capacityTiB = tib_of_bytes 4000000000000, totalDisks = 4, cacheDisks = 1,
          clusterType = ''OSA''\<rparr>, ())"
  using osa_disk_counts [of "sample_host ''esx1'' None (Some vsan_ref)" vsan_ref
      "constant_services (Inl (Err ''x'')) (Inr osa_system) (Inl (Err ''x''))" "()" osa_system "()"
      osa_storage]
  by (simp add: sample_host_def constant_services_def osa_system_def osa_storage_def
      disk_1TB_def disk_bytes_def)

lemma round_wrapped: "round_half_even_rat (\<bar>- 9223372036854771712 / 1024 ^ 4\<bar> * 10) = 83886080"
  by code_simp

lemma Sprintf_1f_wrapped: "Sprintf_1f (- 9223372036854771712 / 1024 ^ 4) = ''-8388608.0''"
  unfolding Sprintf_1f_def Let_def round_wrapped
  by (simp add: Itoa_def digits.simps digit_char_def)

text \<open>
  C4 fails as stated where the sum does not fit an \<open>int64\<close>: for one disk group with one
  non-SSD disk of \<open>4096 * 2251799813685249\<close> bytes the sum of block size times block
  count is \<open>2 ^ 63 + 4096\<close>, the stored capacity is negative and the row shows
  \<open>-8388608.0\<close>.
\<close>

theorem osa_capacity_wraps_counterexample:
  "vsan_host (constant_services (Inl (Err ''x'')) (Inr huge_osa_system) (Inl (Err ''x'')))
     (sample_host ''esx1'' None (Some vsan_ref)) () =
   (Some \<lparr>capacityTiB = - 9223372036854771712 / 1024 ^ 4, totalDisks = 1, cacheDisks = 1,
          clusterType = ''OSA''\<rparr>, ()) \<and>
   (\<Sum>d\<leftarrow>[huge_disk]. sint (Capacity_BlockSize d) * sint (Capacity_Block d)) =
     9223372036854779904 \<and>
   Sprintf_1f (- 9223372036854771712 / 1024 ^ 4) = ''-8388608.0''"
proof -
  have "vsan_host (constant_services (Inl (Err ''x'')) (Inr huge_osa_system) (Inl (Err ''x'')))
     (sample_host ''esx1'' None (Some vsan_ref)) () =
   (Some \<lparr>capacityTiB = - 9223372036854771712 / 1024 ^ 4, totalDisks = 1, cacheDisks = 1,
          clusterType = ''OSA''\<rparr>, ()) \<and>
   (\<Sum>d\<leftarrow>[huge_disk]. sint (Capacity_BlockSize d) * sint (Capacity_Block d)) =
     9223372036854779904"
    by code_simp
  then show ?thesis using Sprintf_1f_wrapped by (elim conjE) (intro conjI)
qed

text \<open>
  C5, as the code has it. For a host whose vSAN system is fetched and is flagged ESA, the pass stores the tag
  \<open>ESA\<close> and a cache-disk count of 0, whether the disk query succeeds or not. When it
  succeeds, the capacity-disk count is the number of returned disks whose \<open>VsanDiskInfo\<close>
  is present, the others being skipped, and the capacity is the TiB value of the sum of
  block size times block count over exactly those disks (in 64-bit arithmetic, which is
  the integer sum whenever that fits an \<open>int64\<close>; where the integer sum is below
  \<open>2 ^ 53\<close> in magnitude the stored capacity is that sum divided by \<open>1024 ^ 4\<close>).
\<close>

theorem esa_disk_counts:
  assumes "ConfigManager_VsanSystem h = Some vsanRef"
    and "RetrieveOne_vsan svc vsanRef w = (Inr vsanSys, w1)"
    and "Config_VsanEsaEnabled vsanSys = Some True"
  shows "(\<exists>info w2. vsan_host svc h w = (Some info, w2) \<and> cacheDisks info = 0 \<and>
            clusterType info = ''ESA'') \<and>
         (\<forall>res w2. QueryDisksForVsan svc vsanRef w1 = (Inr res, w2) \<longrightarrow>
            vsan_host svc h w =
              (Some \<lparr>capacityTiB =
                        tib_of_bytes (\<Sum>dr\<leftarrow>filter (\<lambda>dr. VsanDiskInfo (Disk dr) \<noteq> None) res. disk_bytes (Disk dr)),
                      totalDisks = int (length (filter (\<lambda>dr. VsanDiskInfo (Disk dr) \<noteq> None) res)),
                      cacheDisks = 0,
                      clusterType = ''ESA''\<rparr>, w2) \<and>
            (\<Sum>dr\<leftarrow>filter (\<lambda>dr. VsanDiskInfo (Disk dr) \<noteq> None) res. disk_bytes (Disk dr)) =
              word_of_int (\<Sum>dr\<leftarrow>filter (\<lambda>dr. VsanDiskInfo (Disk dr) \<noteq> None) res.
                 sint (Capacity_BlockSize (Disk dr)) * sint (Capacity_Block (Disk dr))) \<and>
            (- (2 ^ 63) \<le> (\<Sum>dr\<leftarrow>filter (\<lambda>dr. VsanDiskInfo (Disk dr) \<noteq> None) res.
                 sint (Capacity_BlockSize (Disk dr)) * sint (Capacity_Block (Disk dr))) \<and>
             (\<Sum>dr\<leftarrow>filter (\<lambda>dr. VsanDiskInfo (Disk dr) \<noteq> None) res.
                 sint (Capacity_BlockSize (Disk dr)) * sint (Capacity_Block (Disk dr))) < 2 ^ 63 \<longrightarrow>
             sint (\<Sum>dr\<leftarrow>filter (\<lambda>dr. VsanDiskInfo (Disk dr) \<noteq> None) res. disk_bytes (Disk dr)) =
               (\<Sum>dr\<leftarrow>filter (\<lambda>dr. VsanDiskInfo (Disk dr) \<noteq> None) res.
                  sint (Capacity_BlockSize (Disk dr)) * sint (Capacity_Block (Disk dr)))) \<and>
            (\<bar>\<Sum>dr\<leftarrow>filter (\<lambda>dr. VsanDiskInfo (Disk dr) \<noteq> None) res.
                 sint (Capacity_BlockSize (Disk dr)) * sint (Capacity_Block (Disk dr))\<bar> < 2 ^ 53 \<longrightarrow>
             tib_of_bytes (\<Sum>dr\<leftarrow>filter (\<lambda>dr. VsanDiskInfo (Disk dr) \<noteq> None) res. disk_bytes (Disk dr)) =
               of_int (\<Sum>dr\<leftarrow>filter (\<lambda>dr. VsanDiskInfo (Disk dr) \<noteq> None) res.
                  sint (Capacity_BlockSize (Disk dr)) * sint (Capacity_Block (Disk dr))) / 1024 ^ 4))"
proof -
  have u: "\<bar>\<Sum>dr\<leftarrow>xs. sint (Capacity_BlockSize (Disk dr)) * sint (Capacity_Block (Disk dr))\<bar> < 2 ^ 53 \<longrightarrow>
      tib_of_bytes (\<Sum>dr\<leftarrow>xs. disk_bytes (Disk dr)) =
        of_int (\<Sum>dr\<leftarrow>xs. sint (Capacity_BlockSize (Disk dr)) * sint (Capacity_Block (Disk dr))) / 1024 ^ 4"
    for xs :: "VsanHostDiskResult list"
    using tib_of_sum_exact [of "map Disk xs"] by (simp add: comp_def)
  have t: "- (2 ^ 63) \<le> (\<Sum>dr\<leftarrow>xs. sint (Capacity_BlockSize (Disk dr)) * sint (Capacity_Block (Disk dr))) \<and>
      (\<Sum>dr\<leftarrow>xs. sint (Capacity_BlockSize (Disk dr)) * sint (Capacity_Block (Disk dr))) < 2 ^ 63 \<longrightarrow>
      sint (\<Sum>dr\<leftarrow>xs. disk_bytes (Disk dr)) =
        (\<Sum>dr\<leftarrow>xs. sint (Capacity_BlockSize (Disk dr)) * sint (Capacity_Block (Disk dr)))"
    for xs :: "VsanHostDiskResult list"
    using sint_sum_disk_bytes [of "map Disk xs"] by (simp add: comp_def)
  have s: "(\<Sum>dr\<leftarrow>xs. disk_bytes (Disk dr)) =
      word_of_int (\<Sum>dr\<leftarrow>xs. sint (Capacity_BlockSize (Disk dr)) * sint (Capacity_Block (Disk dr)))"
    for xs :: "VsanHostDiskResult list"
    using sum_disk_bytes_int [of "map Disk xs"] by (simp add: comp_def)
  show ?thesis
  proof (cases "QueryDisksForVsan svc vsanRef w1")
    case (Pair r w2)
    then show ?thesis
      using assms s t u by (cases r) (simp_all add: vsan_host_def esa_disks_sum)
  qed
qed

theorem esa_disk_counts_witness:
  "vsan_host (constant_services (Inl (Err ''x'')) (Inr esa_system)
        (Inr [\<lparr>Disk = disk_1TB\<rparr>, \<lparr>Disk = spare_disk\<rparr>, \<lparr>Disk = disk_1TB\<rparr>]))
     (sample_host ''esx1'' None (Some vsan_ref)) () =
   (Some \<lparr>capacityTiB = tib_of_bytes 2000000000000, totalDisks = 2, cacheDisks = 0,
          clusterType = ''ESA''\<rparr>, ())"
  using esa_disk_counts [of "sample_host ''esx1'' None (Some vsan_ref)" vsan_ref
      "constant_services (Inl (Err ''x'')) (Inr esa_system)
        (Inr [\<lparr>Disk = disk_1TB\<rparr>, \<lparr>Disk = spare_disk\<rparr>, \<lparr>Disk = disk_1TB\<rparr>])" "()" esa_system "()"]
  by (simp add: sample_host_def constant_services_def esa_system_def
      disk_1TB_def spare_disk_def disk_bytes_def)

text \<open>
  C5 fails as stated where the sum does not fit an \<open>int64\<close>: for one disk in use of
  \<open>4096 * 2251799813685249\<close> bytes the sum of block size times block count is
  \<open>2 ^ 63 + 4096\<close>, the stored capacity is negative and the row shows \<open>-8388608.0\<close>.
\<close>

theorem esa_capacity_wraps_counterexample:
  "vsan_host (constant_services (Inl (Err ''x'')) (Inr esa_system) (Inr [\<lparr>Disk = huge_disk\<rparr>]))
     (sample_host ''esx1'' None (Some vsan_ref)) () =
   (Some \<lparr>capacityTiB = - 9223372036854771712 / 1024 ^ 4, totalDisks = 1, cacheDisks = 0,
          clusterType = ''ESA''\<rparr>, ()) \<and>
   (\<Sum>dr\<leftarrow>[\<lparr>Disk = huge_disk\<rparr>].
      sint (Capacity_BlockSize (Disk dr)) * sint (Capacity_Block (Disk dr))) =
     9223372036854779904 \<and>
   Sprintf_1f (- 9223372036854771712 / 1024 ^ 4) = ''-8388608.0''"
proof -
  have "vsan_host (constant_services (Inl (Err ''x'')) (Inr esa_system) (Inr [\<lparr>Disk = huge_disk\<rparr>]))
     (sample_host ''esx1'' None (Some vsan_ref)) () =
   (Some \<lparr>capacityTiB = - 9223372036854771712 / 1024 ^ 4, totalDisks = 1, cacheDisks = 0,
          clusterType = ''ESA''\<rparr>, ()) \<and>
   (\<Sum>dr\<leftarrow>[\<lparr>Disk = huge_disk\<rparr>].
      sint (Capacity_BlockSize (Disk dr)) * sint (Capacity_Block (Disk dr))) =
     9223372036854779904"
    by code_simp
  then show ?thesis using Sprintf_1f_wrapped by (elim conjE) (intro conjI)
qed

text \<open>
  C9. For a host whose vSAN system is fetched and is flagged ESA but whose disk query
  fails, the pass stores under the host's name the tag \<open>ESA\<close> with capacity-disk count
  0, cache-disk count 0 and capacity 0, and a row written from that map shows
  \<open>ESA\<close>, \<open>0\<close>, \<open>0\<close>, \<open>0.0\<close>: the host is not degraded to the empty tag.
\<close>

theorem esa_query_failure_keeps_tag:
  assumes "ConfigManager_VsanSystem h = Some vsanRef"
    and "RetrieveOne_vsan svc vsanRef w = (Inr vsanSys, w1)"
    and "Config_VsanEsaEnabled vsanSys = Some True"
    and "QueryDisksForVsan svc vsanRef w1 = (Inl err, w2)"
  shows "vsanInfo_step svc h (vsanInfo, w) =
           (vsanInfo(Summary_Config_Name h \<mapsto>
              \<lparr>capacityTiB = 0, totalDisks = 0, cacheDisks = 0, clusterType = ''ESA''\<rparr>), w2) \<and>
         (\<exists>r. write_row anonymize parentNames anonClusters
                 (fst (vsanInfo_step svc h (vsanInfo, w))) i h = Inr r \<and>
               drop 9 r = [''ESA'', ''0'', ''0'', ''0.0''])"
proof -
  have st: "vsanInfo_step svc h (vsanInfo, w) =
           (vsanInfo(Summary_Config_Name h \<mapsto>
              \<lparr>capacityTiB = 0, totalDisks = 0, cacheDisks = 0, clusterType = ''ESA''\<rparr>), w2)"
    using assms by (simp add: vsanInfo_step_def vsan_host_def tib_of_bytes_0)
  show ?thesis
    using write_row_columns [of anonymize parentNames anonClusters
        "fst (vsanInfo_step svc h (vsanInfo, w))" i h]
    by (auto simp: st lookup_vsanInfo_def Itoa_0 Sprintf_1f_0)
qed

theorem esa_query_failure_keeps_tag_witness:
  "vsanInfo_step (constant_services (Inl (Err ''x'')) (Inr esa_system) (Inl (Err ''timeout'')))
      (sample_host ''esx1'' None (Some vsan_ref)) (Map.empty, ()) =
     ([''esx1'' \<mapsto> \<lparr>capacityTiB = 0, totalDisks = 0, cacheDisks = 0, clusterType = ''ESA''\<rparr>], ())"
  using esa_query_failure_keeps_tag [of "sample_host ''esx1'' None (Some vsan_ref)" vsan_ref
      "constant_services (Inl (Err ''x'')) (Inr esa_system) (Inl (Err ''timeout''))" "()" esa_system "()"
      "Err ''timeout''" "()" Map.empty False Map.empty Map.empty 0]
  by (simp add: sample_host_def constant_services_def esa_system_def)

subsection \<open>The whole run\<close>

lemma write_rows_Inr:
  "\<exists>rs. write_rows anonymize parentNames anonClusters vsanInfo k hs = Inr rs \<and>
     length rs = length hs \<and>
     (\<forall>i<length hs.
        write_row anonymize parentNames anonClusters vsanInfo (k + i) (hs ! i) = Inr (rs ! i))"
proof (induction hs arbitrary: k)
  case Nil
  then show ?case by simp
next
  case (Cons h hs)
  obtain r where r: "write_row anonymize parentNames anonClusters vsanInfo k h = Inr r"
    using write_row_columns by blast
  obtain rs where rs: "write_rows anonymize parentNames anonClusters vsanInfo (Suc k) hs = Inr rs"
    "length rs = length hs"
    "\<forall>i<length hs.
        write_row anonymize parentNames anonClusters vsanInfo (Suc k + i) (hs ! i) = Inr (rs ! i)"
    using Cons.IH by blast
  have "\<forall>i<length (h # hs).
        write_row anonymize parentNames anonClusters vsanInfo (k + i) ((h # hs) ! i) = Inr ((r # rs) ! i)"
  proof (intro allI impI)
    fix i assume "i < length (h # hs)"
    then show "write_row anonymize parentNames anonClusters vsanInfo (k + i) ((h # hs) ! i) = Inr ((r # rs) ! i)"
      using r rs(3) by (cases i) simp_all
  qed
  then show ?case using r rs(1,2) by simp
qed

lemma inventory_rows:
  "\<exists>rows parentNames w1 calls vsanInfo w2.
     parentNames_loop svc hosts (Map.empty, w0, []) = (parentNames, w1, calls) \<and>
     vsanInfo_loop svc hosts (Map.empty, w1) = (vsanInfo, w2) \<and>
     inventory svc anonymize hosts w0 = Inr rows \<and>
     length rows = length hosts \<and>
     (\<forall>i<length hosts.
        write_row anonymize parentNames (build_anonClusters anonymize parentNames hosts)
          vsanInfo i (hosts ! i) = Inr (rows ! i))"
proof -
  obtain parentNames w1 calls where p: "parentNames_loop svc hosts (Map.empty, w0, []) = (parentNames, w1, calls)"
    by (metis prod_cases3)
  obtain vsanInfo w2 where v: "vsanInfo_loop svc hosts (Map.empty, w1) = (vsanInfo, w2)"
    by (metis surj_pair)
  show ?thesis
    using write_rows_Inr [of anonymize parentNames "build_anonClusters anonymize parentNames hosts" vsanInfo 0 hosts]
    by (auto simp: inventory_def p v)
qed

lemma vsanInfo_loop_stored:
  "fst (vsanInfo_loop svc hs (m, w)) n =
     (case stored_for n (vsan_outcomes svc hs w) of [] \<Rightarrow> m n | x # xs \<Rightarrow> Some (last (x # xs)))"
proof (induction hs arbitrary: m w)
  case Nil
  then show ?case by simp
next
  case (Cons h hs)
  obtain r w' where r: "vsan_host svc h w = (r, w')" by (metis surj_pair)
  show ?case
  proof (cases r)
    case None
    then show ?thesis using r by (simp add: vsanInfo_step_def Cons.IH)
  next
    case (Some info)
    then show ?thesis
      using r by (simp add: vsanInfo_step_def Cons.IH split: list.splits)
  qed
qed




subsection \<open>Hosts for which nothing is stored\<close>

lemma vsanInfo_loop_append:
  "vsanInfo_loop svc (xs @ ys) st = vsanInfo_loop svc ys (vsanInfo_loop svc xs st)"
  by (induction xs arbitrary: st) simp_all

lemma length_vsan_outcomes: "length (vsan_outcomes svc hs w) = length hs"
  by (induction hs arbitrary: w) (simp_all split: prod.splits)

lemma vsan_outcomes_nth:
  "i < length hs \<Longrightarrow>
   vsan_outcomes svc hs w ! i =
     (Summary_Config_Name (hs ! i),
      fst (vsan_host svc (hs ! i) (snd (vsanInfo_loop svc (take i hs) (m, w)))))"
proof (induction hs arbitrary: i w m)
  case Nil
  then show ?case by simp
next
  case (Cons h hs)
  obtain r w' where r: "vsan_host svc h w = (r, w')" by (metis surj_pair)
  show ?case
  proof (cases i)
    case 0
    then show ?thesis using r by simp
  next
    case (Suc k)
    then have k: "k < length hs" using Cons.prems by simp
    obtain m' where s: "vsanInfo_step svc h (m, w) = (m', w')"
      using r by (cases r) (simp_all add: vsanInfo_step_def)
    show ?thesis
      using Cons.IH [OF k, of w' m'] Suc r s by simp
  qed
qed

lemma stored_for_Nil:
  "(\<forall>j<length os. fst (os ! j) = n \<longrightarrow> snd (os ! j) = None) \<Longrightarrow> stored_for n os = []"
proof (induction n os rule: stored_for.induct)
  case (1 n)
  then show ?case by simp
next
  case (2 n n' os)
  have "\<forall>j<length os. fst (os ! j) = n \<longrightarrow> snd (os ! j) = None"
  proof (intro allI impI)
    fix j assume "j < length os" "fst (os ! j) = n"
    with 2(2) [rule_format, of "Suc j"] show "snd (os ! j) = None" by simp
  qed
  with 2(1) show ?case by simp
next
  case (3 n n' info os)
  have t: "\<forall>j<length os. fst (os ! j) = n \<longrightarrow> snd (os ! j) = None"
  proof (intro allI impI)
    fix j assume "j < length os" "fst (os ! j) = n"
    with 3(3) [rule_format, of "Suc j"] show "snd (os ! j) = None" by simp
  qed
  from 3(3) [rule_format, of 0] have "n' \<noteq> n" by auto
  with 3(2) t show ?case by simp
qed

lemma vsan_host_stores_nothing:
  assumes "ConfigManager_VsanSystem h = None \<or>
     (\<exists>vsanRef vsanSys. ConfigManager_VsanSystem h = Some vsanRef \<and>
        fst (RetrieveOne_vsan svc vsanRef w) = Inr vsanSys \<and>
        Config_VsanEsaEnabled vsanSys \<noteq> Some True \<and>
        (Config_StorageInfo vsanSys = None \<or>
         (\<exists>si. Config_StorageInfo vsanSys = Some si \<and> DiskMapping si = [])))"
  shows "fst (vsan_host svc h w) = None \<and> fst (vsanInfo_step svc h (vsanInfo, w)) = vsanInfo"
proof -
  have n: "fst (vsan_host svc h w) = None"
    using assms by (auto simp: vsan_host_def split: prod.splits sum.splits)
  then have "fst (vsanInfo_step svc h (vsanInfo, w)) = vsanInfo"
    by (auto simp: vsanInfo_step_def split: prod.splits option.splits)
  with n show ?thesis by blast
qed

text \<open>
  C8, as the code has it. For a host with no vSAN system reference, and for a host whose
  vSAN system is fetched, is not flagged ESA and has no disk-mapping list or an empty
  one, the pass stores nothing, whatever the state of the server and of the map: the two
  cases have the same outcome. In a run, the map after such a host is the map before it,
  and the row of the host shows an empty tag, \<open>0\<close>, \<open>0\<close> and \<open>0.0\<close> if the pass stores
  nothing for any host with the same display name.
\<close>

theorem no_disk_groups_is_none:
  "(\<forall>h w vsanInfo.
      (ConfigManager_VsanSystem (h) = None \<or>
           (\<exists>vsanRef vsanSys. ConfigManager_VsanSystem (h) = Some vsanRef \<and>
              fst (RetrieveOne_vsan svc vsanRef (w)) = Inr vsanSys \<and>
              Config_VsanEsaEnabled vsanSys \<noteq> Some True \<and>
              (Config_StorageInfo vsanSys = None \<or>
               (\<exists>si. Config_StorageInfo vsanSys = Some si \<and> DiskMapping si = [])))) \<longrightarrow>
      fst (vsan_host svc h w) = None \<and> fst (vsanInfo_step svc h (vsanInfo, w)) = vsanInfo) \<and>
   (\<exists>rows. inventory svc anonymize hosts w0 = Inr rows \<and> length rows = length hosts \<and>
      (\<forall>i<length hosts.
         (ConfigManager_VsanSystem (hosts ! i) = None \<or>
           (\<exists>vsanRef vsanSys. ConfigManager_VsanSystem (hosts ! i) = Some vsanRef \<and>
              fst (RetrieveOne_vsan svc vsanRef (world_at svc hosts w0 i)) = Inr vsanSys \<and>
              Config_VsanEsaEnabled vsanSys \<noteq> Some True \<and>
              (Config_StorageInfo vsanSys = None \<or>
               (\<exists>si. Config_StorageInfo vsanSys = Some si \<and> DiskMapping si = [])))) \<longrightarrow>
         fst (vsan_host svc (hosts ! i) (world_at svc hosts w0 i)) = None \<and>
         fst (vsanInfo_loop svc (take (Suc i) hosts) (Map.empty, fst (snd (parentNames_loop svc hosts (Map.empty, w0, []))))) =
           fst (vsanInfo_loop svc (take i hosts) (Map.empty, fst (snd (parentNames_loop svc hosts (Map.empty, w0, []))))) \<and>
         ((\<forall>j<length hosts.
             Summary_Config_Name (hosts ! j) = Summary_Config_Name (hosts ! i) \<longrightarrow>
             fst (vsan_host svc (hosts ! j) (world_at svc hosts w0 j)) = None) \<longrightarrow>
          drop 9 (rows ! i) = ['''', ''0'', ''0'', ''0.0''])))"
proof -
  have A: "(\<forall>h w vsanInfo.
      (ConfigManager_VsanSystem (h) = None \<or>
           (\<exists>vsanRef vsanSys. ConfigManager_VsanSystem (h) = Some vsanRef \<and>
              fst (RetrieveOne_vsan svc vsanRef (w)) = Inr vsanSys \<and>
              Config_VsanEsaEnabled vsanSys \<noteq> Some True \<and>
              (Config_StorageInfo vsanSys = None \<or>
               (\<exists>si. Config_StorageInfo vsanSys = Some si \<and> DiskMapping si = [])))) \<longrightarrow>
      fst (vsan_host svc h w) = None \<and> fst (vsanInfo_step svc h (vsanInfo, w)) = vsanInfo)"
    by (intro allI impI) (rule vsan_host_stores_nothing)
  obtain rows parentNames w1 calls vsanInfo w2 where
    p: "parentNames_loop svc hosts (Map.empty, w0, []) = (parentNames, w1, calls)" and
    v: "vsanInfo_loop svc hosts (Map.empty, w1) = (vsanInfo, w2)" and
    i: "inventory svc anonymize hosts w0 = Inr rows" "length rows = length hosts" and
    r: "\<forall>i<length hosts.
        write_row anonymize parentNames (build_anonClusters anonymize parentNames hosts)
          vsanInfo i (hosts ! i) = Inr (rows ! i)"
    using inventory_rows [of svc hosts w0 anonymize] by (elim exE conjE) blast
  have w: "world_at svc hosts w0 k = snd (vsanInfo_loop svc (take k hosts) (Map.empty, w1))" for k
    by (simp add: world_at_def p)
  have m: "vsanInfo n = (case stored_for n (vsan_outcomes svc hosts w1) of [] \<Rightarrow> None
                          | x # xs \<Rightarrow> Some (last (x # xs)))" for n
    using vsanInfo_loop_stored [of svc hosts Map.empty w1 n] by (simp add: v)
  have o: "vsan_outcomes svc hosts w1 ! k =
      (Summary_Config_Name (hosts ! k), fst (vsan_host svc (hosts ! k) (world_at svc hosts w0 k)))"
    if "k < length hosts" for k
    unfolding w using that by (rule vsan_outcomes_nth)
  have B: "fst (vsan_host svc (hosts ! i) (world_at svc hosts w0 i)) = None \<and>
         fst (vsanInfo_loop svc (take (Suc i) hosts) (Map.empty, w1)) =
           fst (vsanInfo_loop svc (take i hosts) (Map.empty, w1)) \<and>
         ((\<forall>j<length hosts.
             Summary_Config_Name (hosts ! j) = Summary_Config_Name (hosts ! i) \<longrightarrow>
             fst (vsan_host svc (hosts ! j) (world_at svc hosts w0 j)) = None) \<longrightarrow>
          drop 9 (rows ! i) = ['''', ''0'', ''0'', ''0.0''])"
    if lt: "i < length hosts" and c: "(ConfigManager_VsanSystem (hosts ! i) = None \<or>
           (\<exists>vsanRef vsanSys. ConfigManager_VsanSystem (hosts ! i) = Some vsanRef \<and>
              fst (RetrieveOne_vsan svc vsanRef (world_at svc hosts w0 i)) = Inr vsanSys \<and>
              Config_VsanEsaEnabled vsanSys \<noteq> Some True \<and>
              (Config_StorageInfo vsanSys = None \<or>
               (\<exists>si. Config_StorageInfo vsanSys = Some si \<and> DiskMapping si = []))))" for i
  proof -
    obtain mi where mi: "vsanInfo_loop svc (take i hosts) (Map.empty, w1) =
        (mi, world_at svc hosts w0 i)"
      unfolding w by (metis prod.collapse)
    from vsan_host_stores_nothing [OF c, of mi]
    have n: "fst (vsan_host svc (hosts ! i) (world_at svc hosts w0 i)) = None"
      and st: "fst (vsanInfo_step svc (hosts ! i) (mi, world_at svc hosts w0 i)) = mi"
      by blast+
    have "take (Suc i) hosts = take i hosts @ [hosts ! i]"
      using lt by (rule take_Suc_conv_app_nth)
    then have 2: "fst (vsanInfo_loop svc (take (Suc i) hosts) (Map.empty, w1)) =
           fst (vsanInfo_loop svc (take i hosts) (Map.empty, w1))"
      by (simp add: vsanInfo_loop_append mi st)
    have 3: "drop 9 (rows ! i) = ['''', ''0'', ''0'', ''0.0'']"
      if a: "\<forall>j<length hosts.
             Summary_Config_Name (hosts ! j) = Summary_Config_Name (hosts ! i) \<longrightarrow>
             fst (vsan_host svc (hosts ! j) (world_at svc hosts w0 j)) = None"
    proof -
      have "\<forall>j<length (vsan_outcomes svc hosts w1).
          fst (vsan_outcomes svc hosts w1 ! j) = Summary_Config_Name (hosts ! i) \<longrightarrow>
          snd (vsan_outcomes svc hosts w1 ! j) = None"
        using a o by (simp add: length_vsan_outcomes)
      then have "stored_for (Summary_Config_Name (hosts ! i)) (vsan_outcomes svc hosts w1) = []"
        by (rule stored_for_Nil)
      then have e: "vsanInfo (Summary_Config_Name (hosts ! i)) = None" by (simp add: m)
      from r lt have "write_row anonymize parentNames
          (build_anonClusters anonymize parentNames hosts) vsanInfo i (hosts ! i) = Inr (rows ! i)"
        by blast
      then show ?thesis
        using write_row_columns [of anonymize parentNames
            "build_anonClusters anonymize parentNames hosts" vsanInfo i "hosts ! i"]
        by (auto simp: lookup_vsanInfo_def e zero_vsanHostInfo_def Itoa_0 Sprintf_1f_0)
    qed
    from n 2 3 show ?thesis by blast
  qed
  have "(\<exists>rows. inventory svc anonymize hosts w0 = Inr rows \<and> length rows = length hosts \<and>
      (\<forall>i<length hosts.
         (ConfigManager_VsanSystem (hosts ! i) = None \<or>
           (\<exists>vsanRef vsanSys. ConfigManager_VsanSystem (hosts ! i) = Some vsanRef \<and>
              fst (RetrieveOne_vsan svc vsanRef (world_at svc hosts w0 i)) = Inr vsanSys \<and>
              Config_VsanEsaEnabled vsanSys \<noteq> Some True \<and>
              (Config_StorageInfo vsanSys = None \<or>
               (\<exists>si. Config_StorageInfo vsanSys = Some si \<and> DiskMapping si = [])))) \<longrightarrow>
         fst (vsan_host svc (hosts ! i) (world_at svc hosts w0 i)) = None \<and>
         fst (vsanInfo_loop svc (take (Suc i) hosts) (Map.empty, fst (snd (parentNames_loop svc hosts (Map.empty, w0, []))))) =
           fst (vsanInfo_loop svc (take i hosts) (Map.empty, fst (snd (parentNames_loop svc hosts (Map.empty, w0, []))))) \<and>
         ((\<forall>j<length hosts.
             Summary_Config_Name (hosts ! j) = Summary_Config_Name (hosts ! i) \<longrightarrow>
             fst (vsan_host svc (hosts ! j) (world_at svc hosts w0 j)) = None) \<longrightarrow>
          drop 9 (rows ! i) = ['''', ''0'', ''0'', ''0.0''])))"
    using i B unfolding p snd_conv fst_conv by blast
  with A show ?thesis by blast
qed

theorem no_disk_groups_is_none_witness:
  "\<exists>rows. inventory mixed_services False
       [sample_host ''esx1'' None None, sample_host ''esx2'' None (Some vsan_ref),
        sample_host ''esx3'' None (Some other_vsan_ref)] () = Inr rows \<and>
     drop 9 (rows ! 0) = ['''', ''0'', ''0'', ''0.0''] \<and>
     drop 9 (rows ! 2) = ['''', ''0'', ''0'', ''0.0'']"
proof -
  let ?hosts = "[sample_host ''esx1'' None None, sample_host ''esx2'' None (Some vsan_ref),
        sample_host ''esx3'' None (Some other_vsan_ref)]"
  have three: "j = 0 \<or> j = 1 \<or> j = 2" if "j < length ?hosts" for j
    using that by auto
  have c0: "ConfigManager_VsanSystem (?hosts ! 0) = None"
    by (simp add: sample_host_def)
  have c2: "\<exists>vsanRef vsanSys. ConfigManager_VsanSystem (?hosts ! 2) = Some vsanRef \<and>
      fst (RetrieveOne_vsan mixed_services vsanRef (world_at mixed_services ?hosts () 2)) = Inr vsanSys \<and>
      Config_VsanEsaEnabled vsanSys \<noteq> Some True \<and>
      (Config_StorageInfo vsanSys = None \<or>
       (\<exists>si. Config_StorageInfo vsanSys = Some si \<and> DiskMapping si = []))"
    by (simp add: sample_host_def mixed_services_def other_vsan_ref_def empty_osa_system_def)
  have n0: "\<forall>j<length ?hosts.
      Summary_Config_Name (?hosts ! j) = Summary_Config_Name (?hosts ! 0) \<longrightarrow>
      fst (vsan_host mixed_services (?hosts ! j) (world_at mixed_services ?hosts () j)) = None"
  proof (intro allI impI)
    fix j assume "j < length ?hosts"
      "Summary_Config_Name (?hosts ! j) = Summary_Config_Name (?hosts ! 0)"
    with three [of j] have "j = 0" by (auto simp: sample_host_def)
    then show "fst (vsan_host mixed_services (?hosts ! j) (world_at mixed_services ?hosts () j)) = None"
      by (simp add: sample_host_def vsan_host_def)
  qed
  have n2: "\<forall>j<length ?hosts.
      Summary_Config_Name (?hosts ! j) = Summary_Config_Name (?hosts ! 2) \<longrightarrow>
      fst (vsan_host mixed_services (?hosts ! j) (world_at mixed_services ?hosts () j)) = None"
  proof (intro allI impI)
    fix j assume "j < length ?hosts"
      "Summary_Config_Name (?hosts ! j) = Summary_Config_Name (?hosts ! 2)"
    with three [of j] have "j = 2" by (auto simp: sample_host_def)
    then show "fst (vsan_host mixed_services (?hosts ! j) (world_at mixed_services ?hosts () j)) = None"
      by (simp add: sample_host_def vsan_host_def mixed_services_def other_vsan_ref_def
          empty_osa_system_def)
  qed
  from no_disk_groups_is_none [of mixed_services False ?hosts "()"] obtain rows where
    r: "inventory mixed_services False ?hosts () = Inr rows" and
    b: "\<forall>i<length ?hosts.
         (ConfigManager_VsanSystem (?hosts ! i) = None \<or>
           (\<exists>vsanRef vsanSys. ConfigManager_VsanSystem (?hosts ! i) = Some vsanRef \<and>
              fst (RetrieveOne_vsan mixed_services vsanRef (world_at mixed_services ?hosts () i)) = Inr vsanSys \<and>
              Config_VsanEsaEnabled vsanSys \<noteq> Some True \<and>
              (Config_StorageInfo vsanSys = None \<or>
               (\<exists>si. Config_StorageInfo vsanSys = Some si \<and> DiskMapping si = [])))) \<longrightarrow>
         ((\<forall>j<length ?hosts.
             Summary_Config_Name (?hosts ! j) = Summary_Config_Name (?hosts ! i) \<longrightarrow>
             fst (vsan_host mixed_services (?hosts ! j) (world_at mixed_services ?hosts () j)) = None) \<longrightarrow>
          drop 9 (rows ! i) = ['''', ''0'', ''0'', ''0.0''])"
    by blast
  have "drop 9 (rows ! 0) = ['''', ''0'', ''0'', ''0.0'']"
    using b [rule_format, of 0] c0 n0 by simp
  moreover have "drop 9 (rows ! 2) = ['''', ''0'', ''0'', ''0.0'']"
    using b [rule_format, of 2] c2 n2 by simp
  ultimately show ?thesis using r by blast
qed

text \<open>
  C8 fails as stated where another host has the same display name: of three hosts named
  \<open>esx1\<close>, the first has no vSAN system, the third has one with an empty disk-mapping
  list, and the rows of both carry the facts of the second.
\<close>

theorem same_name_facts_counterexample:
  "fst (vsan_host mixed_services (sample_host ''esx1'' None None) ()) = None \<and>
   fst (vsan_host mixed_services (sample_host ''esx1'' None (Some other_vsan_ref)) ()) = None \<and>
   inventory mixed_services False
     [sample_host ''esx1'' None None, sample_host ''esx1'' None (Some vsan_ref),
      sample_host ''esx1'' None (Some other_vsan_ref)] () =
   Inr [[''esx1'', '''', ''R650'', ''8.0.2'', ''Xeon'', ''2'', ''16'', ''32'', ''128'',
         ''ESA'', ''1'', ''0'', ''0.9''],
        [''esx1'', '''', ''R650'', ''8.0.2'', ''Xeon'', ''2'', ''16'', ''32'', ''128'',
         ''ESA'', ''1'', ''0'', ''0.9''],
        [''esx1'', '''', ''R650'', ''8.0.2'', ''Xeon'', ''2'', ''16'', ''32'', ''128'',
         ''ESA'', ''1'', ''0'', ''0.9'']]"
  by code_simp

subsection \<open>The capacity column\<close>

lemma round_half_even_rat_nearest: "\<bar>of_int (round_half_even_rat y) - y\<bar> \<le> 1 / 2"
proof -
  have f: "of_int \<lfloor>y\<rfloor> \<le> y" "y < of_int \<lfloor>y\<rfloor> + 1" by linarith+
  show ?thesis
    using f by (auto simp: round_half_even_rat_def Let_def)
qed

lemma round_half_even_rat_nonneg: "0 \<le> y \<Longrightarrow> 0 \<le> round_half_even_rat y"
  by (auto simp: round_half_even_rat_def Let_def)

lemma excess_bits_bounds:
  "0 \<le> a \<Longrightarrow> a < 2 ^ (53 + k) \<Longrightarrow>
   a < 2 ^ (53 + excess_bits k a) \<and> (0 < excess_bits k a \<longrightarrow> 2 ^ (52 + excess_bits k a) \<le> a)"
proof (induction k arbitrary: a)
  case 0
  then show ?case by simp
next
  case (Suc k)
  show ?case
  proof (cases "a < 2 ^ 53")
    case True
    then show ?thesis by simp
  next
    case False
    let ?e = "excess_bits k (a div 2)"
    have "(2::int) ^ (53 + Suc k) = 2 * 2 ^ (53 + k)" by (simp only: add_Suc_right power_Suc)
    with Suc.prems(2) have "a < 2 * (2::int) ^ (53 + k)" by (simp only:)
    then have h: "0 \<le> a div 2" "a div 2 < 2 ^ (53 + k)" using Suc.prems(1) by linarith+
    from Suc.IH [OF h] have u: "a div 2 < 2 ^ (53 + ?e)"
      and l: "0 < ?e \<longrightarrow> 2 ^ (52 + ?e) \<le> a div 2" by blast+
    have e: "excess_bits (Suc k) a = Suc ?e" using False by simp
    have "a < 2 * 2 ^ (53 + ?e)" using u by linarith
    then have 1: "a < 2 ^ (53 + Suc ?e)" by (simp only: add_Suc_right power_Suc)
    have 2: "(2::int) ^ (52 + Suc ?e) \<le> a"
    proof (cases "0 < ?e")
      case True
      with l have "2 * 2 ^ (52 + ?e) \<le> 2 * (a div 2)" by linarith
      also have "\<dots> \<le> a" by linarith
      finally show ?thesis by (simp only: add_Suc_right power_Suc)
    next
      case e0: False
      then have "?e = 0" by simp
      then show ?thesis using False by simp
    qed
    show ?thesis unfolding e using 1 2 by blast
  qed
qed

lemma round_half_even_error:
  assumes "0 < d"
  shows "2 * \<bar>round_half_even a d * d - a\<bar> \<le> d"
proof -
  have a: "a = (a div d) * d + a mod d" by simp
  have r: "0 \<le> a mod d" "a mod d < d" using assms by simp_all
  have 1: "(a div d) * d - a = - (a mod d)" using a by linarith
  have 2: "(a div d + 1) * d - a = d - a mod d" using a by (simp add: algebra_simps)
  show ?thesis
    unfolding round_half_even_def Let_def using r by (auto simp: 1 2)
qed

lemma float64_of_int64_error:
  "\<bar>float64_of_int64 n - of_int (sint n)\<bar> * 2 ^ 53 \<le> \<bar>of_int (sint n)\<bar>"
proof -
  let ?a = "\<bar>sint n\<bar>"
  let ?e = "excess_bits 11 ?a"
  let ?R = "round_half_even ?a (2 ^ ?e) * 2 ^ ?e"
  have "?a \<le> 2 ^ 63" using sint_ge [of n] sint_lt [of n] by simp
  then have b: "?a < 2 ^ (53 + 11)" by simp
  from excess_bits_bounds [OF _ b]
  have l: "0 < ?e \<longrightarrow> 2 ^ (52 + ?e) \<le> ?a" by simp
  have err: "2 * \<bar>?R - ?a\<bar> \<le> 2 ^ ?e" by (rule round_half_even_error) simp
  have i: "\<bar>?R - ?a\<bar> * 2 ^ 53 \<le> ?a"
  proof (cases "0 < ?e")
    case True
    with l have "2 ^ ?e * (2::int) ^ 52 \<le> ?a" by (simp add: power_add mult.commute)
    moreover have "2 * \<bar>?R - ?a\<bar> * 2 ^ 52 \<le> 2 ^ ?e * (2::int) ^ 52"
      using err by (intro mult_right_mono) simp_all
    ultimately show ?thesis by simp
  next
    case False
    then have "?R = ?a" by (simp add: round_half_even_def)
    then show ?thesis by simp
  qed
  have s: "sgn (sint n) * ?R - sint n = sgn (sint n) * (?R - ?a)"
    by (simp add: algebra_simps mult_sgn_abs abs_mult_sgn)
  have "\<bar>sgn (sint n) * ?R - sint n\<bar> \<le> \<bar>?R - ?a\<bar>"
    unfolding s by (simp add: abs_mult abs_sgn_eq)
  then have "\<bar>sgn (sint n) * ?R - sint n\<bar> * 2 ^ 53 \<le> \<bar>?R - ?a\<bar> * 2 ^ 53"
    by (intro mult_right_mono) simp_all
  with i have j: "\<bar>sgn (sint n) * ?R - sint n\<bar> * 2 ^ 53 \<le> ?a"
    by linarith
  have "float64_of_int64 n - of_int (sint n) = (of_int (sgn (sint n) * ?R - sint n) :: rat)"
    unfolding float64_of_int64_def Let_def by (simp only: of_int_diff)
  then have "\<bar>float64_of_int64 n - of_int (sint n)\<bar> * 2 ^ 53 =
      (of_int (\<bar>sgn (sint n) * ?R - sint n\<bar> * 2 ^ 53) :: rat)"
    by (simp only: of_int_abs of_int_mult of_int_power of_int_numeral)
  also have "\<dots> \<le> of_int ?a" using j by (simp only: of_int_le_iff)
  finally show ?thesis by (simp only: of_int_abs)
qed

lemma tib_of_bytes_error:
  "\<bar>tib_of_bytes b - of_int (sint b) / 1024 ^ 4\<bar> * 2 ^ 53 \<le> \<bar>of_int (sint b) / 1024 ^ 4\<bar>"
proof -
  have "\<bar>tib_of_bytes b - of_int (sint b) / 1024 ^ 4\<bar> * 2 ^ 53 =
      \<bar>float64_of_int64 b - of_int (sint b)\<bar> * 2 ^ 53 / 1024 ^ 4"
    by (simp add: tib_of_bytes_def diff_divide_distrib [symmetric] del: of_int_sint)
  also have "\<dots> \<le> \<bar>of_int (sint b)\<bar> / 1024 ^ 4"
    using float64_of_int64_error [of b] by (intro divide_right_mono) simp_all
  finally show ?thesis by simp
qed

lemma round_half_even_tie:
  assumes "0 < d" and "2 * \<bar>round_half_even a d * d - a\<bar> = d"
  shows "even (round_half_even a d)"
proof -
  have a: "a = (a div d) * d + a mod d" by simp
  have r: "0 \<le> a mod d" "a mod d < d" using assms(1) by simp_all
  have 1: "(a div d) * d - a = - (a mod d)" using a by linarith
  have 2: "(a div d + 1) * d - a = d - a mod d" using a by (simp add: algebra_simps)
  show ?thesis
    using assms(2) r unfolding round_half_even_def Let_def
    by (auto simp: 1 2 split: if_splits)
qed

lemma round_half_even_rat_tie:
  assumes "\<bar>of_int (round_half_even_rat y) - y\<bar> = 1 / 2"
  shows "even (round_half_even_rat y)"
proof -
  have f: "of_int \<lfloor>y\<rfloor> \<le> y" "y < of_int \<lfloor>y\<rfloor> + 1" by linarith+
  show ?thesis
    using assms f unfolding round_half_even_rat_def Let_def
    by (auto split: if_splits)
qed

lemma float64_of_int64_nearest:
  "\<exists>R e. float64_of_int64 n = of_int (sgn (sint n) * (R * 2 ^ e)) \<and>
     (\<bar>sint n\<bar> < 2 ^ 53 \<and> e = 0 \<or> 2 ^ (52 + e) \<le> \<bar>sint n\<bar> \<and> \<bar>sint n\<bar> < 2 ^ (53 + e)) \<and>
     2 * \<bar>R * 2 ^ e - \<bar>sint n\<bar>\<bar> \<le> 2 ^ e \<and>
     (2 * \<bar>R * 2 ^ e - \<bar>sint n\<bar>\<bar> = 2 ^ e \<longrightarrow> even R)"
proof -
  let ?a = "\<bar>sint n\<bar>"
  let ?e = "excess_bits 11 ?a"
  let ?R = "round_half_even ?a (2 ^ ?e)"
  have "?a \<le> 2 ^ 63" using sint_ge [of n] sint_lt [of n] by simp
  then have b: "?a < 2 ^ (53 + 11)" by simp
  from excess_bits_bounds [OF _ b]
  have u: "?a < 2 ^ (53 + ?e)" and l: "0 < ?e \<longrightarrow> 2 ^ (52 + ?e) \<le> ?a" by simp_all
  have 1: "float64_of_int64 n = of_int (sgn (sint n) * (?R * 2 ^ ?e))"
    by (simp only: float64_of_int64_def Let_def)
  have 2: "?a < 2 ^ 53 \<and> ?e = 0 \<or> 2 ^ (52 + ?e) \<le> ?a \<and> ?a < 2 ^ (53 + ?e)"
  proof (cases "0 < ?e")
    case True
    with l u show ?thesis by blast
  next
    case False
    then have "?e = 0" by simp
    with u show ?thesis by simp
  qed
  have 3: "2 * \<bar>?R * 2 ^ ?e - ?a\<bar> \<le> 2 ^ ?e" by (rule round_half_even_error) simp
  have 4: "2 * \<bar>?R * 2 ^ ?e - ?a\<bar> = 2 ^ ?e \<longrightarrow> even ?R"
    using round_half_even_tie [of "2 ^ ?e" ?a] by simp
  show ?thesis using 1 2 3 4 by blast
qed

text \<open>
  C3, as the code has it. The stored capacity times \<open>1024 ^ 4\<close> is the \<open>float64\<close> of the
  byte count: the multiple of \<open>2 ^ e\<close> nearest to the count, ties to the even multiple,
  where \<open>e\<close> is 0 for a count below \<open>2 ^ 53\<close> in magnitude and otherwise leaves a 53-bit
  multiplier. So it is the byte count divided by \<open>1024 ^ 4\<close> exactly when the count is
  below \<open>2 ^ 53\<close> in magnitude, and differs from it by at most its \<open>2 ^ 53\<close>-th part in
  any case. The text in the last column of the row is \<open>Sprintf_1f\<close> of the stored value:
  the sign, then the decimal numeral with one digit after the point whose tenths \<open>t\<close>
  are the integer nearest to ten times the magnitude, the even one of the two when the
  value lies halfway. The value is rounded, not truncated.
\<close>

theorem capacity_rendering:
  "(\<exists>R e. tib_of_bytes b * 1024 ^ 4 = of_int (sgn (sint b) * (R * 2 ^ e)) \<and>
      (\<bar>sint b\<bar> < 2 ^ 53 \<and> e = 0 \<or> 2 ^ (52 + e) \<le> \<bar>sint b\<bar> \<and> \<bar>sint b\<bar> < 2 ^ (53 + e)) \<and>
      2 * \<bar>R * 2 ^ e - \<bar>sint b\<bar>\<bar> \<le> 2 ^ e \<and>
      (2 * \<bar>R * 2 ^ e - \<bar>sint b\<bar>\<bar> = 2 ^ e \<longrightarrow> even R)) \<and>
   (\<bar>sint b\<bar> < 2 ^ 53 \<longrightarrow> tib_of_bytes b = of_int (sint b) / 1024 ^ 4) \<and>
   \<bar>tib_of_bytes b - of_int (sint b) / 1024 ^ 4\<bar> * 2 ^ 53 \<le> \<bar>of_int (sint b) / 1024 ^ 4\<bar> \<and>
   (\<exists>t. 0 \<le> t \<and> \<bar>of_int t - \<bar>tib_of_bytes b\<bar> * 10\<bar> \<le> 1 / 2 \<and>
      (\<bar>of_int t - \<bar>tib_of_bytes b\<bar> * 10\<bar> = 1 / 2 \<longrightarrow> even t) \<and>
      Sprintf_1f (tib_of_bytes b) =
        (if tib_of_bytes b < 0 then ''-'' else '''') @ Itoa (t div 10) @ ''.'' @
        [digit_char (nat (t mod 10))]) \<and>
   (\<exists>r. write_row anonymize parentNames anonClusters vsanInfo i h = Inr r \<and>
      r ! 12 = Sprintf_1f (capacityTiB (lookup_vsanInfo vsanInfo (Summary_Config_Name h))))"
proof -
  let ?x = "tib_of_bytes b"
  let ?t = "round_half_even_rat (\<bar>?x\<bar> * 10)"
  have d: "tib_of_bytes b * 1024 ^ 4 = float64_of_int64 b"
    by (simp add: tib_of_bytes_def)
  have 1: "\<exists>R e. tib_of_bytes b * 1024 ^ 4 = of_int (sgn (sint b) * (R * 2 ^ e)) \<and>
      (\<bar>sint b\<bar> < 2 ^ 53 \<and> e = 0 \<or> 2 ^ (52 + e) \<le> \<bar>sint b\<bar> \<and> \<bar>sint b\<bar> < 2 ^ (53 + e)) \<and>
      2 * \<bar>R * 2 ^ e - \<bar>sint b\<bar>\<bar> \<le> 2 ^ e \<and>
      (2 * \<bar>R * 2 ^ e - \<bar>sint b\<bar>\<bar> = 2 ^ e \<longrightarrow> even R)"
    unfolding d by (rule float64_of_int64_nearest)
  have 2: "\<bar>sint b\<bar> < 2 ^ 53 \<longrightarrow> tib_of_bytes b = of_int (sint b) / 1024 ^ 4"
    using float64_exact [of b] by (simp add: tib_of_bytes_def)
  have 3: "\<bar>of_int ?t - \<bar>?x\<bar> * 10\<bar> \<le> 1 / 2" by (rule round_half_even_rat_nearest)
  have 4: "0 \<le> ?t" by (rule round_half_even_rat_nonneg) simp
  have 5: "Sprintf_1f ?x =
        (if ?x < 0 then ''-'' else '''') @ Itoa (?t div 10) @ ''.'' @ [digit_char (nat (?t mod 10))]"
    by (simp add: Sprintf_1f_def Let_def)
  have 6: "\<bar>tib_of_bytes b - of_int (sint b) / 1024 ^ 4\<bar> * 2 ^ 53 \<le> \<bar>of_int (sint b) / 1024 ^ 4\<bar>"
    by (rule tib_of_bytes_error)
  have 7: "\<bar>of_int ?t - \<bar>?x\<bar> * 10\<bar> = 1 / 2 \<longrightarrow> even ?t"
    using round_half_even_rat_tie [of "\<bar>?x\<bar> * 10"] by blast
  have 8: "\<exists>r. write_row anonymize parentNames anonClusters vsanInfo i h = Inr r \<and>
      r ! 12 = Sprintf_1f (capacityTiB (lookup_vsanInfo vsanInfo (Summary_Config_Name h)))"
  proof -
    obtain r where r: "write_row anonymize parentNames anonClusters vsanInfo i h = Inr r"
      "length r = 13"
      "drop 9 r =
       [clusterType (lookup_vsanInfo vsanInfo (Summary_Config_Name h)),
        Itoa (totalDisks (lookup_vsanInfo vsanInfo (Summary_Config_Name h))),
        Itoa (cacheDisks (lookup_vsanInfo vsanInfo (Summary_Config_Name h))),
        Sprintf_1f (capacityTiB (lookup_vsanInfo vsanInfo (Summary_Config_Name h)))]"
      using write_row_columns [of anonymize parentNames anonClusters vsanInfo i h] by blast
    have "r ! 12 = drop 9 r ! 3" using r(2) by simp
    with r(1,3) show ?thesis by simp
  qed
  from 3 4 5 7 have 9: "\<exists>t. 0 \<le> t \<and> \<bar>of_int t - \<bar>?x\<bar> * 10\<bar> \<le> 1 / 2 \<and>
      (\<bar>of_int t - \<bar>?x\<bar> * 10\<bar> = 1 / 2 \<longrightarrow> even t) \<and>
      Sprintf_1f ?x =
        (if ?x < 0 then ''-'' else '''') @ Itoa (t div 10) @ ''.'' @ [digit_char (nat (t mod 10))]"
    by blast
  show ?thesis using 1 2 6 9 8 by (intro conjI)
qed

theorem capacity_rendering_witness:
  "\<bar>sint (274877906944 :: 64 word)\<bar> < 2 ^ 53 \<and> tib_of_bytes 274877906944 = 1 / 4 \<and>
   Sprintf_1f (tib_of_bytes 274877906944) = ''0.2''"
proof -
  have s: "\<bar>sint (274877906944 :: 64 word)\<bar> < 2 ^ 53" by simp
  from capacity_rendering [of 274877906944] s
  have x: "tib_of_bytes 274877906944 = 1 / 4" by simp
  from capacity_rendering [of 274877906944] obtain t where
    t: "0 \<le> t" "\<bar>of_int t - \<bar>tib_of_bytes 274877906944\<bar> * 10\<bar> \<le> 1 / 2"
      "\<bar>of_int t - \<bar>tib_of_bytes 274877906944\<bar> * 10\<bar> = 1 / 2 \<longrightarrow> even t"
      "Sprintf_1f (tib_of_bytes 274877906944) =
        (if tib_of_bytes 274877906944 < 0 then ''-'' else '''') @ Itoa (t div 10) @ ''.'' @
        [digit_char (nat (t mod 10))]"
    by blast
  from t(2) have "2 \<le> (of_int t :: rat)" "(of_int t :: rat) \<le> 3" unfolding x by linarith+
  then have "2 \<le> t" "t \<le> 3" by simp_all
  then consider "t = 2" | "t = 3" by linarith
  then have "t = 2"
  proof cases
    case 1
    then show ?thesis .
  next
    case 2
    with t(3) have "even (3 :: int)" unfolding x by simp
    then show ?thesis by simp
  qed
  with t(4) have "Sprintf_1f (tib_of_bytes 274877906944) = ''0.2''"
    unfolding x by (simp add: Itoa_def digits.simps digit_char_def)
  with s x show ?thesis by blast
qed

text \<open>
  C3 fails as stated in both parts. At \<open>2 ^ 53 + 1\<close> bytes the stored value is 8192, not
  the byte count divided by \<open>1024 ^ 4\<close>. At 962072674304 bytes, which is 0.875 TiB, the
  row shows \<open>0.9\<close>, and the value cut off after one decimal place is \<open>0.8\<close>.
\<close>

theorem rendering_rounds_counterexample:
  "tib_of_bytes 9007199254740993 = 8192 \<and>
   (of_int (sint (9007199254740993 :: 64 word)) / 1024 ^ 4 :: rat) \<noteq> 8192 \<and>
   Sprintf_1f (tib_of_bytes 962072674304) = ''0.9'' \<and>
   truncate_1f (tib_of_bytes 962072674304) = ''0.8''"
  by code_simp

subsection \<open>The anonymised labels\<close>

lemma first_seen_from_snoc:
  "first_seen_from seen (xs @ [x]) =
     (if x \<in> set (first_seen_from seen xs) then first_seen_from seen xs
      else first_seen_from seen xs @ [x])"
  by (induction xs arbitrary: seen) simp_all

lemma first_seen_order:
  "distinct (first_seen_from [] xs) \<and> set (first_seen_from [] xs) = set xs \<and>
   (\<forall>j k. j < k \<and> k < length (first_seen_from [] xs) \<longrightarrow>
      (\<exists>i<length xs. xs ! i = first_seen_from [] xs ! j \<and>
         first_seen_from [] xs ! k \<notin> set (take (Suc i) xs)))"
proof (induction xs rule: rev_induct)
  case Nil
  then show ?case by simp
next
  case (snoc x xs)
  let ?ns = "first_seen_from [] xs"
  from snoc have d: "distinct ?ns" and s: "set ?ns = set xs"
    and o: "\<And>j k. j < k \<Longrightarrow> k < length ?ns \<Longrightarrow>
      \<exists>i<length xs. xs ! i = ?ns ! j \<and> ?ns ! k \<notin> set (take (Suc i) xs)"
    by blast+
  show ?case
  proof (cases "x \<in> set ?ns")
    case True
    then have e: "first_seen_from [] (xs @ [x]) = ?ns" by (simp add: first_seen_from_snoc)
    have "\<exists>i<length (xs @ [x]). (xs @ [x]) ! i = ?ns ! j \<and> ?ns ! k \<notin> set (take (Suc i) (xs @ [x]))"
      if "j < k" "k < length ?ns" for j k
    proof -
      from o [OF that] obtain i where "i < length xs" "xs ! i = ?ns ! j"
        "?ns ! k \<notin> set (take (Suc i) xs)" by blast
      then show ?thesis by (intro exI [of _ i]) (simp add: nth_append)
    qed
    then show ?thesis using d s True by (auto simp: e)
  next
    case False
    then have e: "first_seen_from [] (xs @ [x]) = ?ns @ [x]" by (simp add: first_seen_from_snoc)
    have "\<exists>i<length (xs @ [x]). (xs @ [x]) ! i = (?ns @ [x]) ! j \<and>
            (?ns @ [x]) ! k \<notin> set (take (Suc i) (xs @ [x]))"
      if "j < k" "k < length (?ns @ [x])" for j k
    proof (cases "k < length ?ns")
      case True
      from o [OF that(1) True] obtain i where "i < length xs" "xs ! i = ?ns ! j"
        "?ns ! k \<notin> set (take (Suc i) xs)" by blast
      then show ?thesis using True that(1) by (intro exI [of _ i]) (simp add: nth_append)
    next
      case k: False
      with that have k: "k = length ?ns" and j: "j < length ?ns" by simp_all
      from j have "?ns ! j \<in> set xs" using s nth_mem by blast
      then obtain i where i: "i < length xs" "xs ! i = ?ns ! j" by (auto simp: in_set_conv_nth)
      have "x \<notin> set (take (Suc i) xs)" using False s by (auto dest: in_set_takeD)
      then show ?thesis using i j k by (intro exI [of _ i]) (simp add: nth_append)
    qed
    then show ?thesis using d s False unfolding e by auto
  qed
qed

lemma anonClusters_loop_inv:
  assumes "distinct seen" and "dom ac = set seen"
    and "\<forall>k<length seen. ac (seen ! k) = Some (''Cluster '' @ Itoa (int k + 1))"
  shows "\<exists>ac'. anonClusters_loop pn hs (ac, int (length seen)) =
            (ac', int (length (first_seen_from seen (real_names pn hs)))) \<and>
          dom ac' = set (first_seen_from seen (real_names pn hs)) \<and>
          (\<forall>k<length (first_seen_from seen (real_names pn hs)).
             ac' (first_seen_from seen (real_names pn hs) ! k) =
               Some (''Cluster '' @ Itoa (int k + 1)))"
  using assms
proof (induction hs arbitrary: ac seen)
  case Nil
  then show ?case by simp
next
  case (Cons h hs)
  show ?case
  proof (cases "Parent h")
    case None
    then show ?thesis using Cons.IH [OF Cons.prems] by (simp add: anonClusters_step_def)
  next
    case (Some p)
    let ?n = "lookup_string pn (Value p)"
    show ?thesis
    proof (cases "ac ?n")
      case None
      then have notin: "?n \<notin> set seen" using Cons.prems(2) by auto
      let ?ac = "ac(?n \<mapsto> ''Cluster '' @ Itoa (int (length seen) + 1))"
      have d: "distinct (seen @ [?n])" using Cons.prems(1) notin by simp
      have m: "dom ?ac = set (seen @ [?n])" using Cons.prems(2) by auto
      have l: "\<forall>k<length (seen @ [?n]). ?ac ((seen @ [?n]) ! k) = Some (''Cluster '' @ Itoa (int k + 1))"
      proof (intro allI impI)
        fix k assume "k < length (seen @ [?n])"
        then consider "k < length seen" | "k = length seen" by fastforce
        then show "?ac ((seen @ [?n]) ! k) = Some (''Cluster '' @ Itoa (int k + 1))"
        proof cases
          case 1
          then have "seen ! k \<noteq> ?n" using notin nth_mem by metis
          then show ?thesis using 1 Cons.prems(3) by (simp add: nth_append)
        next
          case 2
          then show ?thesis by simp
        qed
      qed
      have step: "anonClusters_step pn h (ac, int (length seen)) = (?ac, int (length (seen @ [?n])))"
        using Some None by (simp add: anonClusters_step_def Let_def)
      have fs: "first_seen_from seen (real_names pn (h # hs)) =
          first_seen_from (seen @ [?n]) (real_names pn hs)"
        using Some notin by simp
      show ?thesis
        unfolding anonClusters_loop.simps step fs by (rule Cons.IH [OF d m l])
    next
      case (Some l)
      then have "?n \<in> set seen" using Cons.prems(2) by auto
      then show ?thesis
        using Cons.IH [OF Cons.prems] \<open>Parent h = Some p\<close> Some
        by (simp add: anonClusters_step_def Let_def)
    qed
  qed
qed

lemma build_anonClusters_labels:
  "dom (build_anonClusters True pn hosts) = set (first_seen_from [] (real_names pn hosts)) \<and>
   (\<forall>k<length (first_seen_from [] (real_names pn hosts)).
      build_anonClusters True pn hosts (first_seen_from [] (real_names pn hosts) ! k) =
        Some (''Cluster '' @ Itoa (int k + 1)))"
proof -
  obtain ac' where
    "anonClusters_loop pn hosts (Map.empty, int (length ([] :: string list))) =
       (ac', int (length (first_seen_from [] (real_names pn hosts))))"
    "dom ac' = set (first_seen_from [] (real_names pn hosts))"
    "\<forall>k<length (first_seen_from [] (real_names pn hosts)).
       ac' (first_seen_from [] (real_names pn hosts) ! k) = Some (''Cluster '' @ Itoa (int k + 1))"
    using anonClusters_loop_inv [of "[]" Map.empty pn hosts] by auto
  then show ?thesis by (simp add: build_anonClusters_def)
qed

lemma real_names_mem:
  "h \<in> set hosts \<Longrightarrow> Parent h = Some p \<Longrightarrow> lookup_string pn (Value p) \<in> set (real_names pn hosts)"
  by (induction hosts) (auto split: option.splits)


lemma row_cluster_anonymized:
  assumes "h \<in> set hosts" and "Parent h = Some p"
  shows "\<exists>k<length (first_seen_from [] (real_names pn hosts)).
           first_seen_from [] (real_names pn hosts) ! k = lookup_string pn (Value p) \<and>
           row_cluster True pn (build_anonClusters True pn hosts) h =
             ''Cluster '' @ Itoa (int k + 1)"
proof -
  let ?ns = "first_seen_from [] (real_names pn hosts)"
  have "set ?ns = set (real_names pn hosts)"
    using first_seen_order [of "real_names pn hosts"] by (elim conjE)
  then have "lookup_string pn (Value p) \<in> set ?ns"
    using real_names_mem [OF assms, of pn] by simp
  then obtain k where k: "k < length ?ns" "?ns ! k = lookup_string pn (Value p)"
    by (auto simp: in_set_conv_nth)
  with build_anonClusters_labels [of pn hosts]
  have "build_anonClusters True pn hosts (lookup_string pn (Value p)) =
      Some (''Cluster '' @ Itoa (int k + 1))"
    by auto
  then have "row_cluster True pn (build_anonClusters True pn hosts) h =
      ''Cluster '' @ Itoa (int k + 1)"
    using assms(2) by (simp add: row_cluster_def Let_def lookup_string_def)
  with k show ?thesis by blast
qed

text \<open>
  C6, as the code has it. Under anonymisation, take the names read for the hosts that
  have a parent, in the order of the list: the resolved name of the parent, or the empty
  string for every parent that the first pass did not resolve. Take from them the distinct names in order of first encounter
  (each of them is met before the first occurrence of any later one). The label map is
  defined on exactly these names, it gives the \<open>k\<close>-th of them, counted from 1, the label
  \<open>Cluster k\<close>, it is injective, and the group column of every host with a parent is the
  label of the name read for it: the same name always gets the same label. The empty
  name of the unresolved parents takes its place in the numbering like any other name.
\<close>

theorem anonymized_labels:
  "let names = real_names parentNames hosts;
       ns = first_seen_from [] names;
       anonClusters = build_anonClusters True parentNames hosts
   in distinct ns \<and> set ns = set names \<and>
      (\<forall>j k. j < k \<and> k < length ns \<longrightarrow>
         (\<exists>i<length names. names ! i = ns ! j \<and> ns ! k \<notin> set (take (Suc i) names))) \<and>
      dom anonClusters = set ns \<and>
      (\<forall>k<length ns. anonClusters (ns ! k) = Some (''Cluster '' @ Itoa (int k + 1))) \<and>
      inj_on anonClusters (dom anonClusters) \<and>
      (\<forall>h\<in>set hosts. \<forall>p. Parent h = Some p \<longrightarrow>
         (\<exists>k<length ns. ns ! k = lookup_string parentNames (Value p) \<and>
            row_cluster True parentNames anonClusters h = ''Cluster '' @ Itoa (int k + 1)))"
proof -
  let ?names = "real_names parentNames hosts"
  let ?ns = "first_seen_from [] ?names"
  let ?ac = "build_anonClusters True parentNames hosts"
  have d: "distinct ?ns" and s: "set ?ns = set ?names"
    and o: "\<forall>j k. j < k \<and> k < length ?ns \<longrightarrow>
         (\<exists>i<length ?names. ?names ! i = ?ns ! j \<and> ?ns ! k \<notin> set (take (Suc i) ?names))"
    using first_seen_order [of ?names] by blast+
  have m: "dom ?ac = set ?ns"
    and l: "\<forall>k<length ?ns. ?ac (?ns ! k) = Some (''Cluster '' @ Itoa (int k + 1))"
    using build_anonClusters_labels [of parentNames hosts] by blast+
  have inj: "inj_on ?ac (dom ?ac)"
  proof (rule inj_onI)
    fix x y assume "x \<in> dom ?ac" "y \<in> dom ?ac" and e: "?ac x = ?ac y"
    then obtain j k where j: "j < length ?ns" "?ns ! j = x" and k: "k < length ?ns" "?ns ! k = y"
      unfolding m by (auto simp: in_set_conv_nth)
    from l j k e have "Itoa (int j + 1) = Itoa (int k + 1)" by auto
    then have "int j + 1 = int k + 1" by (intro Itoa_nat_inj) simp_all
    then show "x = y" using j k by simp
  qed
  have r: "\<exists>k<length ?ns. ?ns ! k = lookup_string parentNames (Value p) \<and>
            row_cluster True parentNames ?ac h = ''Cluster '' @ Itoa (int k + 1)"
    if "h \<in> set hosts" "Parent h = Some p" for h p
    using that by (rule row_cluster_anonymized)
  show ?thesis unfolding Let_def using d s o m l inj r by blast
qed

theorem anonymized_labels_witness:
  "build_anonClusters True [''domain-c8'' \<mapsto> ''Prod'', ''domain-c9'' \<mapsto> ''Dev'']
     [sample_host ''esx1'' (Some cluster_ref) None,
      sample_host ''esx2'' (Some \<lparr>Type = ''ClusterComputeResource'', Value = ''domain-c9''\<rparr>) None,
      sample_host ''esx3'' (Some cluster_ref) None] ''Dev'' = Some ''Cluster 2''"
proof -
  let ?pn = "[''domain-c8'' \<mapsto> ''Prod'', ''domain-c9'' \<mapsto> ''Dev'']"
  let ?hosts = "[sample_host ''esx1'' (Some cluster_ref) None,
      sample_host ''esx2'' (Some \<lparr>Type = ''ClusterComputeResource'', Value = ''domain-c9''\<rparr>) None,
      sample_host ''esx3'' (Some cluster_ref) None]"
  have ns: "first_seen_from [] (real_names ?pn ?hosts) = [''Prod'', ''Dev'']"
    by (simp add: sample_host_def cluster_ref_def lookup_string_def)
  from anonymized_labels [of ?pn ?hosts]
  have "\<forall>k<length (first_seen_from [] (real_names ?pn ?hosts)).
      build_anonClusters True ?pn ?hosts (first_seen_from [] (real_names ?pn ?hosts) ! k) =
        Some (''Cluster '' @ Itoa (int k + 1))"
    unfolding Let_def by blast
  then have a: "\<forall>k<length [''Prod'', ''Dev''].
      build_anonClusters True ?pn ?hosts ([''Prod'', ''Dev''] ! k) =
        Some (''Cluster '' @ Itoa (int k + 1))"
    unfolding ns .
  have "build_anonClusters True ?pn ?hosts ([''Prod'', ''Dev''] ! 1) =
      Some (''Cluster '' @ Itoa (int 1 + 1))"
    by (rule a [rule_format]) simp
  then show ?thesis by (simp add: Itoa_def digits.simps digit_char_def)
qed

text \<open>
  C6 fails as stated for real group names where an unresolved group is met first: the
  empty name read for it takes \<open>Cluster 1\<close>, and the only resolved name, \<open>Prod\<close>, is
  labelled \<open>Cluster 2\<close>.
\<close>

theorem unresolved_group_takes_label_counterexample:
  "fst (parentNames_loop flaky_services
          [sample_host ''esx1'' (Some cluster_ref) None,
           sample_host ''esx2'' (Some other_cluster_ref) None] (Map.empty, 0, []))
     ''domain-c8'' = None \<and>
   fst (parentNames_loop flaky_services
          [sample_host ''esx1'' (Some cluster_ref) None,
           sample_host ''esx2'' (Some other_cluster_ref) None] (Map.empty, 0, []))
     ''domain-c9'' = Some ''Prod'' \<and>
   build_anonClusters True
     (fst (parentNames_loop flaky_services
          [sample_host ''esx1'' (Some cluster_ref) None,
           sample_host ''esx2'' (Some other_cluster_ref) None] (Map.empty, 0, [])))
     [sample_host ''esx1'' (Some cluster_ref) None,
      sample_host ''esx2'' (Some other_cluster_ref) None] ''Prod'' = Some ''Cluster 2'' \<and>
   inventory flaky_services True
     [sample_host ''esx1'' (Some cluster_ref) None,
      sample_host ''esx2'' (Some other_cluster_ref) None] 0 =
   Inr [[''Host 1'', ''Cluster 1'', ''R650'', ''8.0.2'', ''Xeon'', ''2'', ''16'', ''32'', ''128'',
         '''', ''0'', ''0'', ''0.0''],
        [''Host 2'', ''Cluster 2'', ''R650'', ''8.0.2'', ''Xeon'', ''2'', ''16'', ''32'', ''128'',
         '''', ''0'', ''0'', ''0.0'']]"
  by code_simp

subsection \<open>The group column\<close>

text \<open>
  C2, as the code has it. The run ends without a panic and writes one row per host. For
  a host that has a parent whose name is not in \<open>parentNames\<close> after the first pass (every
  attempt to resolve it failed), the group column is empty in the normal mode. Under
  anonymisation it is the label \<open>Cluster k\<close> that the second pass gave to the empty name,
  the same for all such hosts.
\<close>

theorem unresolved_group_field:
  "\<exists>rows. inventory svc anonymize hosts w0 = Inr rows \<and> length rows = length hosts \<and>
     (\<forall>i<length hosts. \<forall>p.
        Parent (hosts ! i) = Some p \<and>
        fst (parentNames_loop svc hosts (Map.empty, w0, [])) (Value p) = None \<longrightarrow>
        (\<not> anonymize \<longrightarrow> rows ! i ! 1 = '''') \<and>
        (anonymize \<longrightarrow>
           (\<exists>k<length (first_seen_from []
                  (real_names (fst (parentNames_loop svc hosts (Map.empty, w0, []))) hosts)).
              first_seen_from []
                  (real_names (fst (parentNames_loop svc hosts (Map.empty, w0, []))) hosts) ! k = '''' \<and>
              rows ! i ! 1 = ''Cluster '' @ Itoa (int k + 1))))"
proof -
  obtain rows parentNames w1 calls vsanInfo w2 where
    p: "parentNames_loop svc hosts (Map.empty, w0, []) = (parentNames, w1, calls)" and
    i: "inventory svc anonymize hosts w0 = Inr rows" "length rows = length hosts" and
    r: "\<forall>i<length hosts.
        write_row anonymize parentNames (build_anonClusters anonymize parentNames hosts)
          vsanInfo i (hosts ! i) = Inr (rows ! i)"
    using inventory_rows [of svc hosts w0 anonymize] by (elim exE conjE) blast
  have c: "rows ! i ! 1 =
      row_cluster anonymize parentNames (build_anonClusters anonymize parentNames hosts) (hosts ! i)"
    if "i < length hosts" for i
    using r that
      write_row_columns [of anonymize parentNames "build_anonClusters anonymize parentNames hosts"
        vsanInfo i "hosts ! i"]
    by auto
  have "(\<not> anonymize \<longrightarrow> rows ! i ! 1 = '''') \<and>
        (anonymize \<longrightarrow>
           (\<exists>k<length (first_seen_from [] (real_names parentNames hosts)).
              first_seen_from [] (real_names parentNames hosts) ! k = '''' \<and>
              rows ! i ! 1 = ''Cluster '' @ Itoa (int k + 1)))"
    if "i < length hosts" "Parent (hosts ! i) = Some q" "parentNames (Value q) = None" for i q
  proof -
    have e: "lookup_string parentNames (Value q) = ''''"
      using that(3) by (simp add: lookup_string_def)
    have n: "\<not> anonymize \<Longrightarrow> rows ! i ! 1 = ''''"
      using c [OF that(1)] that(2) e by (simp add: row_cluster_def Let_def)
    have a: "anonymize \<Longrightarrow> \<exists>k<length (first_seen_from [] (real_names parentNames hosts)).
              first_seen_from [] (real_names parentNames hosts) ! k = '''' \<and>
              rows ! i ! 1 = ''Cluster '' @ Itoa (int k + 1)"
      using row_cluster_anonymized [of "hosts ! i" hosts q parentNames] that(1,2) c [OF that(1)]
      by (simp add: e)
    from n a show ?thesis by blast
  qed
  then have "\<forall>i<length hosts. \<forall>q.
        Parent (hosts ! i) = Some q \<and> parentNames (Value q) = None \<longrightarrow>
        (\<not> anonymize \<longrightarrow> rows ! i ! 1 = '''') \<and>
        (anonymize \<longrightarrow>
           (\<exists>k<length (first_seen_from [] (real_names parentNames hosts)).
              first_seen_from [] (real_names parentNames hosts) ! k = '''' \<and>
              rows ! i ! 1 = ''Cluster '' @ Itoa (int k + 1)))"
    by blast
  then show ?thesis using i unfolding p fst_conv by blast
qed

text \<open>
  C2 fails as stated under anonymisation: one host whose parent cannot be resolved gets
  the group column \<open>Cluster 1\<close>, not the empty string.
\<close>

theorem unresolved_group_anonymized_counterexample:
  "fst (parentNames_loop
          (constant_services (Inl (Err ''timeout'')) (Inl (Err ''timeout'')) (Inl (Err ''timeout'')))
          [sample_host ''esx1'' (Some cluster_ref) None] (Map.empty, (), [])) (Value cluster_ref) = None \<and>
   inventory (constant_services (Inl (Err ''timeout'')) (Inl (Err ''timeout'')) (Inl (Err ''timeout'')))
     True [sample_host ''esx1'' (Some cluster_ref) None] () =
   Inr [[''Host 1'', ''Cluster 1'', ''R650'', ''8.0.2'', ''Xeon'', ''2'', ''16'', ''32'', ''128'',
         '''', ''0'', ''0'', ''0.0'']]"
  by code_simp

theorem unresolved_group_field_witness:
  "\<exists>rows. inventory (constant_services (Inl (Err ''timeout'')) (Inl (Err ''timeout'')) (Inl (Err ''timeout'')))
       False [sample_host ''esx1'' (Some cluster_ref) None] () = Inr rows \<and>
     length rows = 1 \<and> rows ! 0 ! 1 = ''''"
proof -
  let ?svc = "constant_services (Inl (Err ''timeout'')) (Inl (Err ''timeout'')) (Inl (Err ''timeout''))"
  let ?hosts = "[sample_host ''esx1'' (Some cluster_ref) None]"
  have u: "Parent (?hosts ! 0) = Some cluster_ref \<and>
      fst (parentNames_loop ?svc ?hosts (Map.empty, (), [])) (Value cluster_ref) = None"
    by (simp add: sample_host_def constant_services_def parentNames_step_def)
  from unresolved_group_field [of ?svc False ?hosts "()"] obtain rows where
    r: "inventory ?svc False ?hosts () = Inr rows" "length rows = length ?hosts" and
    c: "\<forall>i<length ?hosts. \<forall>p.
        Parent (?hosts ! i) = Some p \<and>
        fst (parentNames_loop ?svc ?hosts (Map.empty, (), [])) (Value p) = None \<longrightarrow>
        (\<not> False \<longrightarrow> rows ! i ! 1 = '''')"
    by blast
  have "rows ! 0 ! 1 = ''''"
    using c [rule_format, of 0 cluster_ref] u by simp
  with r show ?thesis by simp
qed

subsection \<open>The calls for group names\<close>

lemma no_call_after_success_snoc:
  assumes a: "\<forall>xs ys v. calls = xs @ (v, True) # ys \<longrightarrow> v \<notin> fst ` set ys"
    and n: "(u, True) \<notin> set calls"
  shows "\<forall>xs ys v. calls @ [(u, ok)] = xs @ (v, True) # ys \<longrightarrow> v \<notin> fst ` set ys"
proof (intro allI impI)
  fix xs ys v
  assume e: "calls @ [(u, ok)] = xs @ (v, True) # ys"
  show "v \<notin> fst ` set ys"
  proof (cases ys rule: rev_cases)
    case Nil
    then show ?thesis by simp
  next
    case (snoc ys' z)
    with e have c: "calls = xs @ (v, True) # ys'" and z: "z = (u, ok)" by simp_all
    from a c have "v \<notin> fst ` set ys'" by blast
    moreover from c n have "v \<noteq> u" by auto
    ultimately show ?thesis using snoc z by simp
  qed
qed

lemma parentNames_step_inv:
  assumes "\<forall>v. (v, True) \<in> set calls \<longrightarrow> v \<in> dom pn"
    and "\<forall>xs ys v. calls = xs @ (v, True) # ys \<longrightarrow> v \<notin> fst ` set ys"
    and "parentNames_step svc h (pn, w, calls) = (pn', w', calls')"
  shows "(\<forall>v. (v, True) \<in> set calls' \<longrightarrow> v \<in> dom pn') \<and>
         (\<forall>xs ys v. calls' = xs @ (v, True) # ys \<longrightarrow> v \<notin> fst ` set ys)"
proof (cases "Parent h")
  case None
  with assms show ?thesis by (simp add: parentNames_step_def)
next
  case (Some p)
  show ?thesis
  proof (cases "pn (Value p)")
    case (Some name)
    with assms \<open>Parent h = Some p\<close> show ?thesis by (simp add: parentNames_step_def)
  next
    case None
    then have n: "(Value p, True) \<notin> set calls" using assms(1) by auto
    obtain r w1 where r: "RetrieveOne_name svc p w = (r, w1)" by (metis surj_pair)
    show ?thesis
    proof (cases r)
      case (Inl err)
      then have e: "pn' = pn" "calls' = calls @ [(Value p, False)]"
        using assms(3) r None \<open>Parent h = Some p\<close> by (simp_all add: parentNames_step_def)
      show ?thesis
        unfolding e using assms(1) no_call_after_success_snoc [OF assms(2) n, of False] by auto
    next
      case (Inr name)
      then have e: "pn' = pn(Value p \<mapsto> name)" "calls' = calls @ [(Value p, True)]"
        using assms(3) r None \<open>Parent h = Some p\<close> by (simp_all add: parentNames_step_def)
      show ?thesis
        unfolding e using assms(1) no_call_after_success_snoc [OF assms(2) n, of True] by auto
    qed
  qed
qed

lemma parentNames_loop_inv:
  assumes "\<forall>v. (v, True) \<in> set calls \<longrightarrow> v \<in> dom pn"
    and "\<forall>xs ys v. calls = xs @ (v, True) # ys \<longrightarrow> v \<notin> fst ` set ys"
    and "parentNames_loop svc hs (pn, w, calls) = (pn', w', calls')"
  shows "(\<forall>v. (v, True) \<in> set calls' \<longrightarrow> v \<in> dom pn') \<and>
         (\<forall>xs ys v. calls' = xs @ (v, True) # ys \<longrightarrow> v \<notin> fst ` set ys)"
  using assms
proof (induction hs arbitrary: pn w calls)
  case Nil
  then show ?case by simp
next
  case (Cons h hs)
  obtain pn1 w1 calls1 where s: "parentNames_step svc h (pn, w, calls) = (pn1, w1, calls1)"
    by (metis prod_cases3)
  from parentNames_step_inv [OF Cons.prems(1,2) s]
  have i: "\<forall>v. (v, True) \<in> set calls1 \<longrightarrow> v \<in> dom pn1"
    "\<forall>xs ys v. calls1 = xs @ (v, True) # ys \<longrightarrow> v \<notin> fst ` set ys"
    by blast+
  from Cons.prems(3) have "parentNames_loop svc hs (pn1, w1, calls1) = (pn', w', calls')"
    by (simp add: s)
  from Cons.IH [OF i this] show ?case .
qed

lemma success_at_most_once:
  "\<forall>xs ys v. calls = xs @ (v, True) # ys \<longrightarrow> v \<notin> fst ` set ys \<Longrightarrow>
   length (filter (\<lambda>c. c = (u, True)) calls) \<le> 1"
proof (induction calls)
  case Nil
  then show ?case by simp
next
  case (Cons c cs)
  have t: "\<forall>xs ys v. cs = xs @ (v, True) # ys \<longrightarrow> v \<notin> fst ` set ys"
  proof (intro allI impI)
    fix xs ys v assume "cs = xs @ (v, True) # ys"
    then have "c # cs = (c # xs) @ (v, True) # ys" by simp
    with Cons.prems show "v \<notin> fst ` set ys" by blast
  qed
  show ?case
  proof (cases "c = (u, True)")
    case True
    then have "c # cs = [] @ (u, True) # cs" by simp
    with Cons.prems have "u \<notin> fst ` set cs" by blast
    then have "(u, True) \<notin> set cs" by force
    then have "filter (\<lambda>c. c = (u, True)) cs = []" unfolding filter_empty_conv by blast
    with True show ?thesis by simp
  next
    case False
    with Cons.IH [OF t] show ?thesis by simp
  qed
qed

lemma parentNames_loop_append:
  "parentNames_loop svc (xs @ ys) st = parentNames_loop svc ys (parentNames_loop svc xs st)"
  by (induction xs arbitrary: st) simp_all

lemma parentNames_step_dom:
  assumes "dom pn = {v. (v, True) \<in> set calls}"
    and "parentNames_step svc h (pn, w, calls) = (pn', w', calls')"
  shows "dom pn' = {v. (v, True) \<in> set calls'}"
proof (cases "Parent h")
  case None
  with assms show ?thesis by (simp add: parentNames_step_def)
next
  case (Some p)
  show ?thesis
  proof (cases "pn (Value p)")
    case (Some name)
    with assms \<open>Parent h = Some p\<close> show ?thesis by (simp add: parentNames_step_def)
  next
    case None
    obtain r w1 where r: "RetrieveOne_name svc p w = (r, w1)" by (metis surj_pair)
    show ?thesis
    proof (cases r)
      case (Inl err)
      then have "pn' = pn" "calls' = calls @ [(Value p, False)]"
        using assms(2) r None \<open>Parent h = Some p\<close> by (simp_all add: parentNames_step_def)
      with assms(1) show ?thesis by auto
    next
      case (Inr name)
      then have "pn' = pn(Value p \<mapsto> name)" "calls' = calls @ [(Value p, True)]"
        using assms(2) r None \<open>Parent h = Some p\<close> by (simp_all add: parentNames_step_def)
      with assms(1) show ?thesis by auto
    qed
  qed
qed

lemma parentNames_loop_dom:
  assumes "dom pn = {v. (v, True) \<in> set calls}"
    and "parentNames_loop svc hs (pn, w, calls) = (pn', w', calls')"
  shows "dom pn' = {v. (v, True) \<in> set calls'}"
  using assms
proof (induction hs arbitrary: pn w calls)
  case Nil
  then show ?case by simp
next
  case (Cons h hs)
  obtain pn1 w1 calls1 where s: "parentNames_step svc h (pn, w, calls) = (pn1, w1, calls1)"
    by (metis prod_cases3)
  from parentNames_step_dom [OF Cons.prems(1) s]
  have i: "dom pn1 = {v. (v, True) \<in> set calls1}" .
  from Cons.prems(2) have "parentNames_loop svc hs (pn1, w1, calls1) = (pn', w', calls')"
    by (simp add: s)
  from Cons.IH [OF i this] show ?case .
qed

lemma parentNames_step_calls:
  assumes "dom pn = {v. (v, True) \<in> set calls}"
  shows "snd (snd (parentNames_step svc h (pn, w, calls))) =
     calls @
     (case Parent h of
        None \<Rightarrow> []
      | Some p \<Rightarrow>
          if (Value p, True) \<in> set calls then []
          else [(Value p, \<not> isl (fst (RetrieveOne_name svc p w)))])"
proof (cases "Parent h")
  case None
  then show ?thesis by (simp add: parentNames_step_def)
next
  case (Some p)
  show ?thesis
  proof (cases "pn (Value p)")
    case (Some name)
    then have "(Value p, True) \<in> set calls" using assms by auto
    with Some \<open>Parent h = Some p\<close> show ?thesis by (simp add: parentNames_step_def)
  next
    case None
    then have n: "(Value p, True) \<notin> set calls" using assms by auto
    obtain r w1 where r: "RetrieveOne_name svc p w = (r, w1)" by (metis surj_pair)
    show ?thesis
      using None n r \<open>Parent h = Some p\<close> by (cases r) (simp_all add: parentNames_step_def)
  qed
qed

lemma parentNames_loop_next_call:
  assumes "parentNames_loop svc hosts (Map.empty, w0, []) = (pn, w, calls)"
  shows "snd (snd (parentNames_loop svc (hosts @ [h]) (Map.empty, w0, []))) =
     calls @
     (case Parent h of
        None \<Rightarrow> []
      | Some p \<Rightarrow>
          if (Value p, True) \<in> set calls then []
          else [(Value p, \<not> isl (fst (RetrieveOne_name svc p w)))])"
proof -
  have d: "dom pn = {v. (v, True) \<in> set calls}"
    using parentNames_loop_dom [OF _ assms] by simp
  show ?thesis
    unfolding parentNames_loop_append assms using parentNames_step_calls [OF d] by simp
qed


lemma calls_without_success:
  "(v, True) \<notin> set (snd (snd (parentNames_loop svc hosts (Map.empty, w0, [])))) \<Longrightarrow>
   length (filter (\<lambda>c. fst c = v) (snd (snd (parentNames_loop svc hosts (Map.empty, w0, []))))) =
     length (filter (\<lambda>h. map_option Value (Parent h) = Some v) hosts)"
proof (induction hosts rule: rev_induct)
  case Nil
  then show ?case by simp
next
  case (snoc h hs)
  obtain pn w calls where p: "parentNames_loop svc hs (Map.empty, w0, []) = (pn, w, calls)"
    by (metis prod_cases3)
  let ?x = "case Parent h of
        None \<Rightarrow> []
      | Some p \<Rightarrow>
          if (Value p, True) \<in> set calls then []
          else [(Value p, \<not> isl (fst (RetrieveOne_name svc p w)))]"
  have e: "snd (snd (parentNames_loop svc (hs @ [h]) (Map.empty, w0, []))) = calls @ ?x"
    by (rule parentNames_loop_next_call [OF p])
  from snoc.prems have n: "(v, True) \<notin> set calls" unfolding e by simp
  then have ih: "length (filter (\<lambda>c. fst c = v) calls) =
      length (filter (\<lambda>h. map_option Value (Parent h) = Some v) hs)"
    using snoc.IH by (simp add: p)
  have "length (filter (\<lambda>c. fst c = v) ?x) = (if map_option Value (Parent h) = Some v then 1 else 0)"
    using n by (auto split: option.splits)
  then show ?case unfolding e using ih by simp
qed

text \<open>
  C1, as the code has it. The first pass asks for the name of the parent of a host
  exactly when no earlier call for that reference has succeeded: the list of calls after
  one more host is the list before it, followed by one call for the parent of that host
  unless the host has no parent or a call for that parent has already succeeded. So no
  call for a reference follows a successful one, a reference is resolved successfully at
  most once, \<open>parentNames\<close> holds exactly the references whose call succeeded, and a
  reference for which no attempt fails is asked for at most once. A failed attempt is
  not recorded: a reference that is never resolved is asked for once for every host
  that has it as its parent.
\<close>

theorem name_calls:
  "let calls = snd (snd (parentNames_loop svc hosts (Map.empty, w0, [])));
       w = fst (snd (parentNames_loop svc hosts (Map.empty, w0, [])))
   in (\<forall>xs ys v. calls = xs @ (v, True) # ys \<longrightarrow> v \<notin> fst ` set ys) \<and>
      (\<forall>v. length (filter (\<lambda>c. c = (v, True)) calls) \<le> 1) \<and>
      (\<forall>v. (v, False) \<notin> set calls \<longrightarrow> length (filter (\<lambda>c. fst c = v) calls) \<le> 1) \<and>
      dom (fst (parentNames_loop svc hosts (Map.empty, w0, []))) = {v. (v, True) \<in> set calls} \<and>
      (\<forall>h. snd (snd (parentNames_loop svc (hosts @ [h]) (Map.empty, w0, []))) =
         calls @
         (case Parent h of
            None \<Rightarrow> []
          | Some p \<Rightarrow>
              if (Value p, True) \<in> set calls then []
              else [(Value p, \<not> isl (fst (RetrieveOne_name svc p w)))])) \<and>
      (\<forall>v. (v, True) \<notin> set calls \<longrightarrow>
         length (filter (\<lambda>c. fst c = v) calls) =
           length (filter (\<lambda>h. map_option Value (Parent h) = Some v) hosts))"
proof -
  obtain pn w1 calls where p: "parentNames_loop svc hosts (Map.empty, w0, []) = (pn, w1, calls)"
    by (metis prod_cases3)
  have a: "\<forall>xs ys v. calls = xs @ (v, True) # ys \<longrightarrow> v \<notin> fst ` set ys"
    using parentNames_loop_inv [OF _ _ p] by simp
  have b: "length (filter (\<lambda>c. c = (v, True)) calls) \<le> 1" for v
    using a by (rule success_at_most_once)
  have c: "length (filter (\<lambda>c. fst c = v) calls) \<le> 1" if "(v, False) \<notin> set calls" for v
  proof -
    have "(fst e = v) = (e = (v, True))" if "e \<in> set calls" for e
    proof -
      obtain x ok where "e = (x, ok)" by (cases e)
      with that \<open>(v, False) \<notin> set calls\<close> show ?thesis by (cases ok) auto
    qed
    then have "filter (\<lambda>c. fst c = v) calls = filter (\<lambda>c. c = (v, True)) calls"
      by (intro filter_cong refl)
    with b [of v] show ?thesis by simp
  qed
  have d: "dom pn = {v. (v, True) \<in> set calls}"
    using parentNames_loop_dom [OF _ p] by simp
  have e: "snd (snd (parentNames_loop svc (hosts @ [h]) (Map.empty, w0, []))) =
         calls @
         (case Parent h of
            None \<Rightarrow> []
          | Some p \<Rightarrow>
              if (Value p, True) \<in> set calls then []
              else [(Value p, \<not> isl (fst (RetrieveOne_name svc p w1)))])" for h
    by (rule parentNames_loop_next_call [OF p])
  have f: "length (filter (\<lambda>c. fst c = v) calls) =
           length (filter (\<lambda>h. map_option Value (Parent h) = Some v) hosts)"
    if "(v, True) \<notin> set calls" for v
    using calls_without_success [of v svc hosts w0] that by (simp add: p)
  show ?thesis unfolding Let_def p snd_conv fst_conv using a b c d e f by blast
qed

theorem name_calls_witness:
  "snd (snd (parentNames_loop flaky_services
       [sample_host ''esx1'' (Some cluster_ref) None, sample_host ''esx2'' (Some cluster_ref) None,
        sample_host ''esx3'' (Some cluster_ref) None]
       (Map.empty, 0, []))) = [(''domain-c8'', False), (''domain-c8'', True)] \<and>
   length (filter (\<lambda>c. c = (''domain-c8'', True))
     (snd (snd (parentNames_loop flaky_services
       [sample_host ''esx1'' (Some cluster_ref) None, sample_host ''esx2'' (Some cluster_ref) None,
        sample_host ''esx3'' (Some cluster_ref) None]
       (Map.empty, 0, []))))) \<le> 1 \<and>
   length (filter (\<lambda>c. fst c = ''domain-c8'')
     (snd (snd (parentNames_loop
       (constant_services (Inl (Err ''timeout'')) (Inl (Err ''timeout'')) (Inl (Err ''timeout'')))
       [sample_host ''esx1'' (Some cluster_ref) None, sample_host ''esx2'' (Some cluster_ref) None]
       (Map.empty, (), []))))) = 2"
  using name_calls [of flaky_services
       "[sample_host ''esx1'' (Some cluster_ref) None, sample_host ''esx2'' (Some cluster_ref) None,
        sample_host ''esx3'' (Some cluster_ref) None]" 0]
    name_calls [of
       "constant_services (Inl (Err ''timeout'')) (Inl (Err ''timeout'')) (Inl (Err ''timeout''))"
       "[sample_host ''esx1'' (Some cluster_ref) None, sample_host ''esx2'' (Some cluster_ref) None]"
       "()"]
  by (simp add: Let_def sample_host_def cluster_ref_def flaky_services_def constant_services_def
      parentNames_step_def)

text \<open>
  C1 fails as stated where a resolution attempt fails: with two hosts under one parent
  and a server that does not answer, the call for that parent is made twice.
\<close>

theorem failed_call_repeated_counterexample:
  "snd (snd (parentNames_loop
       (constant_services (Inl (Err ''timeout'')) (Inl (Err ''timeout'')) (Inl (Err ''timeout'')))
       [sample_host ''esx1'' (Some cluster_ref) None, sample_host ''esx2'' (Some cluster_ref) None]
       (Map.empty, (), []))) =
   [(''domain-c8'', False), (''domain-c8'', False)]"
  by code_simp

end
